theory Spec2Isabelle
  imports Complex_Main "HOL-Library.Word" "HOL-Library.Sublist"
begin

section \<open>The tutoring whiteboard (TutorWhiteboard)\<close>

text \<open>
  JavaScript numbers are modelled as real numbers: the arithmetic of the whiteboard (cursor
  offsets, image placement, canvas heights) is taken exactly, without the rounding of
  IEEE doubles. Strings are lists of 8-bit characters, one per UTF-16 code unit below 256.
  An optional field of a command (\<open>x?: number\<close>) is an \<open>option\<close>; \<open>None\<close> is
  \<open>undefined\<close>.
\<close>

subsection \<open>Commands\<close>

type_synonym point = "real \<times> real"

datatype shape = Arrow | Circle | Rect | Line

text \<open>
  The fields, in order:
  \<^item> \<open>Write text x y size color\<close>
  \<^item> \<open>Draw shape from to center radius width height color\<close>
  \<^item> \<open>Highlight x y width height color\<close>
  \<^item> \<open>Image imageData x y width height\<close>
\<close>

datatype WhiteboardCommand =
    Write string "real option" "real option" "real option" "string option"
  | Draw shape "point option" "point option" "point option"
      "real option" "real option" "real option" "string option"
  | Highlight real real real real "string option"
  | Clear
  | Image string "real option" "real option" "real option" "real option"

text \<open>\<open>v || d\<close> on an optional number and on an optional string.\<close>

definition or_number :: "real option \<Rightarrow> real \<Rightarrow> real" where
  "or_number v d = (case v of None \<Rightarrow> d | Some n \<Rightarrow> if n = 0 then d else n)"

definition or_string :: "string option \<Rightarrow> string \<Rightarrow> string" where
  "or_string v d = (case v of None \<Rightarrow> d | Some s \<Rightarrow> if s = [] then d else s)"

subsection \<open>The canvas element and its 2D context\<close>

text \<open>
  The canvas is observed through the calls made on it, in order: assignments to the
  properties of the 2D context, path and painting calls, and the assignment to
  \<open>canvas.height\<close>, which clears the bitmap: \<open>SetHeight n ok\<close> stands for the
  assignment after which the canvas has the height \<open>n\<close>, and \<open>ok\<close> tells whether the
  browser holds a bitmap of that height. \<open>DrawSnapshot h cs\<close> is
  \<open>ctx.drawImage(restoreImg, 0, 0)\<close> where \<open>restoreImg\<close> was loaded from
  \<open>canvas.toDataURL('image/png')\<close> of a canvas of height \<open>h\<close> on which the calls
  \<open>cs\<close> had been made. \<open>DrawImage data x y w h\<close> draws the decoded image \<open>data\<close>
  scaled to \<open>w\<close> by \<open>h\<close>. \<open>SetFont n\<close> assigns the font
  \<open>bold n px "Google Sans", sans-serif\<close>.
\<close>

datatype ctx_call =
    SetFont real
  | SetFillStyle string
  | SetStrokeStyle string
  | SetLineWidth real
  | SetLineCap string
  | SetLineJoin string
  | SetLineDash "real list"
  | SetShadowColor string
  | SetShadowBlur real
  | SetShadowOffsetX real
  | SetShadowOffsetY real
  | Save
  | Restore
  | BeginPath
  | MoveTo real real
  | LineTo real real
  | Arc real real real real real
  | Stroke
  | FillRect real real real real
  | StrokeRect real real real real
  | FillText string real real
  | DrawImage string real real real real
  | SetHeight int bool
  | DrawSnapshot int "ctx_call list"

record canvas =
  height :: int
  context2d :: bool
  calls :: "ctx_call list"

definition CANVAS_WIDTH :: int where
  "CANVAS_WIDTH = 800"

definition MIN_CANVAS_HEIGHT :: int where
  "MIN_CANVAS_HEIGHT = 800"

definition CONTENT_PADDING :: real where
  "CONTENT_PADDING = 30"

text \<open>The calls \<open>ctx.f(...)\<close> of a piece of code are appended to the canvas's.\<close>

definition ctx_do :: "ctx_call list \<Rightarrow> canvas \<Rightarrow> canvas" where
  "ctx_do cs c = c\<lparr>calls := calls c @ cs\<rparr>"

text \<open>The values of \<open>for (let x = 0; x < width; x += 40)\<close>, from \<open>x\<close> on.\<close>

function grid_from :: "int \<Rightarrow> int \<Rightarrow> int list" where
  "grid_from x width = (if x < width then x # grid_from (x + 40) width else [])"
  by pat_completeness auto
termination
  by (relation "measure (\<lambda>(x, width). nat (width - x))") auto

declare grid_from.simps [simp del]

definition drawBackground :: "int \<Rightarrow> int \<Rightarrow> ctx_call list" where
  "drawBackground width height' =
     [SetFillStyle ''#1a1a2e'', FillRect 0 0 (real_of_int width) (real_of_int height'),
      SetStrokeStyle ''rgba(255,255,255,0.03)'', SetLineWidth 1]
     @ concat (map (\<lambda>x. [BeginPath, MoveTo (real_of_int x) 0,
                            LineTo (real_of_int x) (real_of_int height'), Stroke])
                (grid_from 0 width))
     @ concat (map (\<lambda>y. [BeginPath, MoveTo 0 (real_of_int y),
                            LineTo (real_of_int width) (real_of_int y), Stroke])
                (grid_from 0 height'))"

subsection \<open>The state of one whiteboard\<close>

text \<open>
  The refs of the component. \<open>canvasRef\<close> is \<open>None\<close> while the canvas element is not
  mounted. The item count's display and the scrolling of the container are not modelled;
  \<open>isExpandingRef\<close> is only ever written and \<open>pendingDrawRef\<close> is never used, so
  neither is part of the state.
\<close>

record whiteboard =
  canvasRef :: "canvas option"
  currentYRef :: real
  canvasHeightRef :: real
  renderedHashesRef :: "string set"
  itemCountRef :: nat

text \<open>
  The state after the component has mounted and its effect has run: the canvas has its
  initial width and height (the assignments clear the bitmap) and the background is
  painted.
\<close>

definition mounted_canvas :: canvas where
  "mounted_canvas =
     \<lparr>height = MIN_CANVAS_HEIGHT, context2d = True,
      calls = [SetHeight MIN_CANVAS_HEIGHT True]
        @ drawBackground CANVAS_WIDTH MIN_CANVAS_HEIGHT\<rparr>"

definition mounted_whiteboard :: whiteboard where
  "mounted_whiteboard =
     \<lparr>canvasRef = Some mounted_canvas,
      currentYRef = 80,
      canvasHeightRef = real_of_int MIN_CANVAS_HEIGHT,
      renderedHashesRef = {},
      itemCountRef = 0\<rparr>"

definition getNextY :: "real \<Rightarrow> whiteboard \<Rightarrow> real \<times> whiteboard" where
  "getNextY heightNeeded s =
     (currentYRef s, s\<lparr>currentYRef := currentYRef s + (heightNeeded + CONTENT_PADDING)\<rparr>)"

subsection \<open>Text normalisation\<close>

text \<open>
  \<open>String.prototype.trim\<close> and \<open>toLowerCase\<close> on code units below 256: the white space
  and line terminators there are U+0009 to U+000D, U+0020 and U+00A0; the letters with a
  lower case are A to Z and U+00C0 to U+00DE without U+00D7.
\<close>

definition is_js_space :: "char \<Rightarrow> bool" where
  "is_js_space c = (let n = (of_char c :: nat) in (9 \<le> n \<and> n \<le> 13) \<or> n = 32 \<or> n = 160)"

definition js_trim :: "string \<Rightarrow> string" where
  "js_trim s = rev (dropWhile is_js_space (rev (dropWhile is_js_space s)))"

definition lower_char :: "char \<Rightarrow> char" where
  "lower_char c =
     (let n = (of_char c :: nat)
      in if (65 \<le> n \<and> n \<le> 90) \<or> (192 \<le> n \<and> n \<le> 222 \<and> n \<noteq> 215)
         then char_of (n + 32) else c)"

definition toLowerCase :: "string \<Rightarrow> string" where
  "toLowerCase s = map lower_char s"

definition text_hash :: "string \<Rightarrow> string" where
  "text_hash txt = ''text-'' @ take 30 (toLowerCase (js_trim txt))"

subsection \<open>The platform\<close>

text \<open>
  What the browser decides: \<open>decodeImage data\<close> is the outcome of loading the image
  \<open>data:image/png;base64,data\<close>, its natural width and height, or \<open>None\<close> when the
  load fails (a decoded image has a positive width); \<open>snapshotLoads\<close> tells whether
  the image made from the data URL of a canvas that has a bitmap loads;
  \<open>maxBitmapHeight\<close> is the greatest height for which the browser holds a bitmap of
  the canvas's width (65535 or 32767 rows in current browsers). A canvas of 800 rows has
  a bitmap on every platform.
\<close>

record platform =
  decodeImage :: "string \<Rightarrow> (nat \<times> nat) option"
  snapshotLoads :: bool
  maxBitmapHeight :: int

datatype js_error = IndexSizeError

subsection \<open>Growing the canvas\<close>

text \<open>
  \<open>canvas.height = newHeight\<close>: the attribute is an \<open>unsigned long\<close>. The number
  loses its fraction and is taken modulo \<open>2^32\<close>; a result above \<open>2^31 - 1\<close> is
  replaced by the default height 150. The assignment clears the bitmap, and the canvas
  has no bitmap at all when the height is 0 or above the platform's limit: painting on
  it does nothing and its data URL is \<open>data:,\<close>, which does not load as an image.
  \<open>imageData\<close>, the data URL of the canvas, stands for the bitmap it encodes: the
  height of the canvas and the calls made on it so far, or \<open>None\<close> for \<open>data:,\<close>. The
  promise of \<open>expandCanvas\<close> is resolved from the \<open>onload\<close> (or
  \<open>onerror\<close>) handler of the snapshot's image; the model runs the handler as part of the
  call, so the state returned is the state at the time the promise resolves, provided no
  other whiteboard operation runs in between.
\<close>

definition js_trunc :: "real \<Rightarrow> int" where
  "js_trunc r = (if 0 \<le> r then \<lfloor>r\<rfloor> else \<lceil>r\<rceil>)"

definition dom_unsigned_long :: "real \<Rightarrow> int" where
  "dom_unsigned_long h =
     (let n = js_trunc h mod 4294967296 in if 2147483647 < n then 150 else n)"

definition holds_bitmap :: "platform \<Rightarrow> int \<Rightarrow> bool" where
  "holds_bitmap p n = (0 < n \<and> n \<le> maxBitmapHeight p)"

definition set_canvas_height :: "platform \<Rightarrow> real \<Rightarrow> canvas \<Rightarrow> canvas" where
  "set_canvas_height p h c =
     (let n = dom_unsigned_long h
      in c\<lparr>height := n, calls := calls c @ [SetHeight n (holds_bitmap p n)]\<rparr>)"

definition expandCanvas :: "platform \<Rightarrow> real \<Rightarrow> whiteboard \<Rightarrow> whiteboard" where
  "expandCanvas p newHeight s =
     (case canvasRef s of
        None \<Rightarrow> s
      | Some c \<Rightarrow>
          if newHeight \<le> canvasHeightRef s then s
          else
            let imageData = (if holds_bitmap p (height c) then Some (height c, calls c)
                             else None);
                c1 = set_canvas_height p newHeight c;
                s1 = s\<lparr>canvasHeightRef := newHeight\<rparr>
            in if \<not> context2d c1 then s1\<lparr>canvasRef := Some c1\<rparr>
               else
                 let c2 = ctx_do (drawBackground CANVAS_WIDTH (height c1)) c1
                 in case imageData of
                      None \<Rightarrow> s1\<lparr>canvasRef := Some c2\<rparr>
                    | Some (h0, cs0) \<Rightarrow>
                        if snapshotLoads p
                        then s1\<lparr>canvasRef := Some (ctx_do [DrawSnapshot h0 cs0] c2)\<rparr>
                        else s1\<lparr>canvasRef := Some c2\<rparr>)"

subsection \<open>Drawing\<close>

definition atan2 :: "real \<Rightarrow> real \<Rightarrow> real" where
  "atan2 y x =
     (if 0 < x then arctan (y / x)
      else if x < 0 then (if 0 \<le> y then arctan (y / x) + pi else arctan (y / x) - pi)
      else if 0 < y then pi / 2 else if y < 0 then - pi / 2 else 0)"

text \<open>
  \<open>drawShape\<close>: the calls made, and the error thrown by \<open>ctx.arc\<close> for a negative
  radius, if any.
\<close>

definition drawShape ::
  "shape \<Rightarrow> point option \<Rightarrow> point option \<Rightarrow> point option \<Rightarrow> real option \<Rightarrow>
   real option \<Rightarrow> real option \<Rightarrow> string option \<Rightarrow> js_error option \<times> ctx_call list" where
  "drawShape sh from' to' center radius width' height' color =
     (let style = [SetStrokeStyle (or_string color ''#60a5fa''), SetLineWidth 3,
                   SetLineCap ''round'', SetLineJoin ''round'']
      in case sh of
           Arrow \<Rightarrow>
             (case (from', to') of
                (Some (fx, fy), Some (tx, ty)) \<Rightarrow>
                  let angle = atan2 (ty - fy) (tx - fx); arrowSize = 15
                  in (None, style @
                       [BeginPath, MoveTo fx fy, LineTo tx ty, Stroke,
                        BeginPath, MoveTo tx ty,
                        LineTo (tx - arrowSize * cos (angle - pi / 6))
                               (ty - arrowSize * sin (angle - pi / 6)),
                        MoveTo tx ty,
                        LineTo (tx - arrowSize * cos (angle + pi / 6))
                               (ty - arrowSize * sin (angle + pi / 6)),
                        Stroke])
              | _ \<Rightarrow> (None, style))
         | Circle \<Rightarrow>
             (case (center, radius) of
                (Some (cx, cy), Some r) \<Rightarrow>
                  if r = 0 then (None, style)
                  else if r < 0 then (Some IndexSizeError, style @ [BeginPath])
                  else (None, style @ [BeginPath, Arc cx cy r 0 (pi * 2), Stroke])
              | _ \<Rightarrow> (None, style))
         | Rect \<Rightarrow>
             (case (from', width', height') of
                (Some (fx, fy), Some w, Some h) \<Rightarrow>
                  if w \<noteq> 0 \<and> h \<noteq> 0 then (None, style @ [StrokeRect fx fy w h])
                  else (None, style)
              | _ \<Rightarrow> (None, style))
         | Line \<Rightarrow>
             (case (from', to') of
                (Some (fx, fy), Some (tx, ty)) \<Rightarrow>
                  (None, style @ [BeginPath, MoveTo fx fy, LineTo tx ty, Stroke])
              | _ \<Rightarrow> (None, style)))"

definition drawImageWithBorder :: "string \<Rightarrow> real \<Rightarrow> real \<Rightarrow> real \<Rightarrow> real \<Rightarrow> ctx_call list" where
  "drawImageWithBorder img x y width' height' =
     [Save, SetShadowColor ''rgba(0, 0, 0, 0.6)'', SetShadowBlur 20,
      SetShadowOffsetX 4, SetShadowOffsetY 4,
      DrawImage img x y width' height', Restore,
      SetStrokeStyle ''rgba(74, 222, 128, 0.5)'', SetLineWidth 3,
      StrokeRect x y width' height']"

text \<open>The calls of a piece of code on the mounted canvas of a whiteboard.\<close>

definition on_canvas :: "ctx_call list \<Rightarrow> whiteboard \<Rightarrow> whiteboard" where
  "on_canvas cs s = s\<lparr>canvasRef := map_option (ctx_do cs) (canvasRef s)\<rparr>"

text \<open>
  \<open>renderImage\<close> is asynchronous: it waits for the image to load and for the growth of
  the canvas. The model runs it to its end in one step.
\<close>

definition renderImage ::
  "platform \<Rightarrow> string \<Rightarrow> real option \<Rightarrow> real option \<Rightarrow> real option \<Rightarrow> real option \<Rightarrow>
   whiteboard \<Rightarrow> whiteboard" where
  "renderImage p base64Data x y width' height' s =
     (case canvasRef s of
        None \<Rightarrow> s
      | Some c \<Rightarrow>
          if \<not> context2d c then s
          else
            (case decodeImage p base64Data of
               None \<Rightarrow> s
             | Some (img_width, img_height) \<Rightarrow>
                 let imgWidth = or_number width' (min 550 (real_of_int CANVAS_WIDTH - 80));
                     imgHeight = or_number height' (real img_height * (imgWidth / real img_width));
                     imgX = (case x of Some v \<Rightarrow> v
                             | None \<Rightarrow> (real_of_int CANVAS_WIDTH - imgWidth) / 2);
                     (imgY, s1) = (case y of Some v \<Rightarrow> (v, s)
                                   | None \<Rightarrow> getNextY (imgHeight + 40) s);
                     neededHeight = imgY + imgHeight + 100;
                     s2 = (if neededHeight > canvasHeightRef s1
                           then expandCanvas p (neededHeight + 300) s1 else s1);
                     s3 = on_canvas (drawImageWithBorder base64Data imgX imgY imgWidth imgHeight) s2
                 in s3\<lparr>itemCountRef := itemCountRef s3 + 1\<rparr>))"

subsection \<open>Executing a command\<close>

text \<open>
  The result is the error thrown, if any, and the state left behind. The image of an
  \<open>Image\<close> command is rendered by \<open>renderImage\<close>, whose promise \<open>executeCommand\<close>
  does not wait for; the model runs it at once.
\<close>

definition executeCommand ::
  "platform \<Rightarrow> WhiteboardCommand \<Rightarrow> whiteboard \<Rightarrow> js_error option \<times> whiteboard" where
  "executeCommand p cmd s =
     (case canvasRef s of
        None \<Rightarrow> (None, s)
      | Some c \<Rightarrow>
          if \<not> context2d c then (None, s)
          else
            (case cmd of
               Write txt x' y' size' color \<Rightarrow>
                 let fontSize = or_number size' 24;
                     s1 = on_canvas [SetFont fontSize] s;
                     textHeight = fontSize * 1.4;
                     x = 40;
                     (y, s2) = getNextY textHeight s1;
                     hash = text_hash txt
                 in if hash \<in> renderedHashesRef s2 then (None, s2)
                    else
                      let s3 = s2\<lparr>renderedHashesRef := insert hash (renderedHashesRef s2)\<rparr>;
                          s4 = on_canvas
                                 [SetShadowColor ''rgba(74, 222, 128, 0.3)'', SetShadowBlur 8,
                                  SetFillStyle (or_string color ''#4ade80''),
                                  FillText txt x y, SetShadowBlur 0] s3
                      in (None, s4\<lparr>itemCountRef := itemCountRef s4 + 1\<rparr>)
             | Draw sh from' to' center radius width' height' color \<Rightarrow>
                 (case drawShape sh from' to' center radius width' height' color of
                    (Some e, cs) \<Rightarrow> (Some e, on_canvas cs s)
                  | (None, cs) \<Rightarrow>
                      let s1 = on_canvas cs s
                      in (None, s1\<lparr>itemCountRef := itemCountRef s1 + 1\<rparr>))
             | Highlight x y width' height' color \<Rightarrow>
                 (None, on_canvas [SetFillStyle (or_string color ''rgba(250, 204, 21, 0.3)''),
                                   FillRect x y width' height'] s)
             | Clear \<Rightarrow>
                 let (dividerY, s1) = getNextY 50 s
                 in (None, on_canvas
                      [SetStrokeStyle ''rgba(255, 255, 255, 0.1)'', SetLineWidth 1,
                       SetLineDash [10, 10], BeginPath, MoveTo 40 dividerY,
                       LineTo (real_of_int CANVAS_WIDTH - 40) dividerY, Stroke,
                       SetLineDash []] s1)
             | Image imageData x y width' height' \<Rightarrow>
                 if imageData = [] then (None, s)
                 else (None, renderImage p imageData x y width' height' s)))"

text \<open>
  \<open>commands.forEach(cmd => whiteboardRef.current.executeCommand(cmd))\<close>: the commands of
  one chunk in order; an error thrown by one of them ends the loop.
\<close>

fun executeCommands ::
  "platform \<Rightarrow> WhiteboardCommand list \<Rightarrow> whiteboard \<Rightarrow> js_error option \<times> whiteboard" where
  "executeCommands p [] s = (None, s)"
| "executeCommands p (cmd # cmds) s =
     (case executeCommand p cmd s of
        (Some e, s') \<Rightarrow> (Some e, s')
      | (None, s') \<Rightarrow> executeCommands p cmds s')"

subsection \<open>The bitmap of a canvas\<close>

text \<open>
  How the browser rasterises a painting call is a parameter: \<open>P hist call bm\<close> is the
  bitmap after \<open>call\<close>, made on the bitmap \<open>bm\<close> when the calls \<open>hist\<close> had been made
  on the canvas from the last assignment of its height on (that assignment first, so the
  rasteriser knows the height and whether there is a bitmap to paint on; what a painting
  call does on a canvas without a bitmap, nothing in a browser, is the rasteriser's part).
  Assigning the
  height clears the bitmap to \<open>blank\<close> and resets the context. Drawing a snapshot at
  the origin replaces the pixels that the snapshot covers, when the canvas has a bitmap,
  and does nothing when it has none: the background is painted over the whole bitmap in
  an opaque colour, so a snapshot of the canvas is opaque, and the context is in its
  default state when \<open>expandCanvas\<close> draws it.
\<close>

type_synonym 'px bitmap = "int \<times> int \<Rightarrow> 'px"

type_synonym 'px painter = "ctx_call list \<Rightarrow> ctx_call \<Rightarrow> 'px bitmap \<Rightarrow> 'px bitmap"

fun paints :: "ctx_call \<Rightarrow> bool" where
  "paints Stroke = True"
| "paints (FillRect x y w h) = True"
| "paints (StrokeRect x y w h) = True"
| "paints (FillText t x y) = True"
| "paints (DrawImage d x y w h) = True"
| "paints _ = False"

fun has_bitmap :: "ctx_call list \<Rightarrow> bool" where
  "has_bitmap (SetHeight n ok # hist) = ok"
| "has_bitmap _ = True"

fun paint_calls ::
  "'px painter \<Rightarrow> 'px \<Rightarrow> ctx_call list \<Rightarrow> ctx_call list \<times> 'px bitmap \<Rightarrow>
   ctx_call list \<times> 'px bitmap" where
  "paint_calls P blank [] st = st"
| "paint_calls P blank (c # cs) (hist, bm) =
     paint_calls P blank cs
       (case c of
          SetHeight n ok \<Rightarrow> ([c], \<lambda>_. blank)
        | DrawSnapshot h0 cs0 \<Rightarrow>
            (hist @ [c],
             \<lambda>(x, y). if has_bitmap hist \<and> 0 \<le> x \<and> x < CANVAS_WIDTH \<and> 0 \<le> y \<and> y < h0
                      then snd (paint_calls P blank cs0 ([], \<lambda>_. blank)) (x, y)
                      else bm (x, y))
        | _ \<Rightarrow> (hist @ [c], if paints c then P hist c bm else bm))"

definition bitmap_of :: "'px painter \<Rightarrow> 'px \<Rightarrow> canvas \<Rightarrow> 'px bitmap" where
  "bitmap_of P blank c = snd (paint_calls P blank (calls c) ([], \<lambda>_. blank))"

subsection \<open>Notions for the statements about the whiteboard\<close>

text \<open>The painting calls made on the canvas of a whiteboard so far.\<close>

definition painted :: "whiteboard \<Rightarrow> ctx_call list" where
  "painted s = (case canvasRef s of None \<Rightarrow> [] | Some c \<Rightarrow> filter paints (calls c))"

text \<open>
  A platform on which every image is 1024 by 768, the snapshot loads and a bitmap has at
  most 65535 rows.
\<close>

definition example_platform :: platform where
  "example_platform =
     \<lparr>decodeImage = (\<lambda>data. Some (1024, 768)), snapshotLoads = True,
      maxBitmapHeight = 65535\<rparr>"

text \<open>The calls made on the context of a canvas since its bitmap was last cleared.\<close>

definition context_history :: "'px painter \<Rightarrow> 'px \<Rightarrow> canvas \<Rightarrow> ctx_call list" where
  "context_history P blank c = fst (paint_calls P blank (calls c) ([], \<lambda>_. blank))"

text \<open>A rasteriser for examples: a stroke sets the pixels of row 80 from column 40 to 759.\<close>

definition example_painter :: "nat painter" where
  "example_painter hist call bm =
     (\<lambda>(x, y). if call = Stroke \<and> y = 80 \<and> 40 \<le> x \<and> x < 760 then 1 else bm (x, y))"

text \<open>The Write commands, and the hash under which a Write command's text is remembered.\<close>

fun is_write :: "WhiteboardCommand \<Rightarrow> bool" where
  "is_write (Write txt x y size' color) = True"
| "is_write _ = False"

fun write_hash :: "WhiteboardCommand \<Rightarrow> string" where
  "write_hash (Write txt x y size' color) = text_hash txt"
| "write_hash _ = []"

text \<open>Three Write commands, the third repeating the first up to case and white space.\<close>

definition example_writes :: "WhiteboardCommand list" where
  "example_writes =
     [Write ''F = ma'' None None None None,
      Write ''Hello'' (Some 10) (Some 10) (Some 32) None,
      Write '' f = MA'' None None None (Some ''red'')]"

text \<open>The calls that assign the canvas's height: one for each growth of the canvas.\<close>

fun is_resize :: "ctx_call \<Rightarrow> bool" where
  "is_resize (SetHeight n ok) = True"
| "is_resize _ = False"

section \<open>The audio bridge (SocraticChat)\<close>

text \<open>
  Bytes and 16-bit samples are machine words. A sample of the microphone is a real number:
  the finite values of a 32-bit float, whose product with 32768 a double holds exactly.
\<close>

subsection \<open>Capture: from samples to the outbound message\<close>








record media_blob =
  blob_data :: string
  mimeType :: string

subsection \<open>Playback: from the bytes of a chunk to an audio buffer\<close>

datatype audio_error = RangeError | NotSupportedError

text \<open>\<open>new Int16Array(data.buffer)\<close> on an even number of bytes, the low byte first.\<close>

fun int16_view :: "8 word list \<Rightarrow> 16 word list" where
  "int16_view (lo # hi # rest) = word_cat hi lo # int16_view rest"
| "int16_view _ = []"

record audio_buffer =
  sampleRate :: nat
  channelData :: "real list list"

definition buffer_length :: "audio_buffer \<Rightarrow> nat" where
  "buffer_length b = (case channelData b of [] \<Rightarrow> 0 | ch # _ \<Rightarrow> length ch)"

definition buffer_duration :: "audio_buffer \<Rightarrow> real" where
  "buffer_duration b = real (buffer_length b) / real (sampleRate b)"

text \<open>
  \<open>decodeAudioData\<close>. The view throws a RangeError on an odd number of bytes;
  \<open>ctx.createBuffer\<close> throws a NotSupportedError for no channel or an empty buffer, and
  takes the integral part of the frame count. The code calls it with the sample rate
  24000 and one channel.
\<close>

definition decodeAudioData :: "8 word list \<Rightarrow> nat \<Rightarrow> nat \<Rightarrow> audio_error + audio_buffer" where
  "decodeAudioData data' rate numChannels =
     (if odd (length data') then Inl RangeError
      else
        let dataInt16 = int16_view data';
            frameCount = length dataInt16 div numChannels
        in if numChannels = 0 \<or> frameCount = 0 then Inl NotSupportedError
           else Inr \<lparr>sampleRate = rate,
                     channelData =
                       map (\<lambda>channel.
                              map (\<lambda>i. real_of_int (sint (dataInt16 ! (i * numChannels + channel)))
                                          / 32768)
                                [0..<frameCount])
                         [0..<numChannels]\<rparr>)"

subsection \<open>The session's refs\<close>

text \<open>
  A source node is known by the order of its creation, the time given to \<open>start\<close> and its
  buffer. \<open>sourcesRef\<close> holds the nodes in the order of their insertion; \<open>stopped\<close>
  and \<open>sent\<close> record the calls of \<open>stop()\<close> and of \<open>sendRealtimeInput\<close>.
  \<open>sessionRef\<close> and \<open>outputAudioCtxRef\<close> tell whether the ref is set.
\<close>

record source_node =
  source_id :: nat
  start_time :: real
  source_buffer :: audio_buffer

record audio_session =
  isActiveRef :: bool
  sessionRef :: bool
  outputAudioCtxRef :: bool
  nextStartTimeRef :: real
  sourcesRef :: "source_node list"
  outputTranscriptRef :: string
  created :: nat
  stopped :: "source_node list"
  sent :: "media_blob list"


text \<open>
  The playback part of \<open>onmessage\<close>, for a chunk whose base64 text decodes to the bytes
  \<open>data'\<close>, at the time \<open>currentTime\<close> of the output context's clock. An error ends the
  handler after the assignment to \<open>nextStartTimeRef\<close>.
\<close>

definition play_audio ::
  "real \<Rightarrow> 8 word list \<Rightarrow> audio_session \<Rightarrow> audio_error option \<times> audio_session" where
  "play_audio currentTime data' a =
     (let a1 = a\<lparr>nextStartTimeRef := max (nextStartTimeRef a) currentTime\<rparr>
      in case decodeAudioData data' 24000 1 of
           Inl e \<Rightarrow> (Some e, a1)
         | Inr audioBuffer \<Rightarrow>
             let source = \<lparr>source_id = created a1, start_time = nextStartTimeRef a1,
                            source_buffer = audioBuffer\<rparr>
             in (None, a1\<lparr>nextStartTimeRef := nextStartTimeRef a1 + buffer_duration audioBuffer,
                           sourcesRef := sourcesRef a1 @ [source],
                           created := created a1 + 1\<rparr>))"

text \<open>The \<open>ended\<close> listener of a source.\<close>

definition source_ended :: "source_node \<Rightarrow> audio_session \<Rightarrow> audio_session" where
  "source_ended source a =
     a\<lparr>sourcesRef := filter (\<lambda>s. source_id s \<noteq> source_id source) (sourcesRef a)\<rparr>"

text \<open>The part of \<open>onmessage\<close> for \<open>serverContent.interrupted\<close>.\<close>

definition interrupt :: "audio_session \<Rightarrow> audio_session" where
  "interrupt a =
     a\<lparr>stopped := stopped a @ sourcesRef a, sourcesRef := [],
       nextStartTimeRef := 0, outputTranscriptRef := []\<rparr>"

text \<open>
  A message of the server, as far as playback goes: the bytes of the audio of its first
  part (\<open>None\<close> when there is none, or the base64 text is empty) and the flag
  \<open>interrupted\<close>. \<open>onmessage\<close> handles the audio first and the interruption last;
  the parts of the handler that keep the transcripts are left out.
\<close>

record server_message =
  inlineData :: "8 word list option"
  interrupted :: bool

definition onmessage ::
  "real \<Rightarrow> server_message \<Rightarrow> audio_session \<Rightarrow> audio_error option \<times> audio_session" where
  "onmessage currentTime message a =
     (case (case inlineData message of
              None \<Rightarrow> (None, a)
            | Some data' \<Rightarrow>
                if outputAudioCtxRef a then play_audio currentTime data' a else (None, a)) of
        (Some e, a1) \<Rightarrow> (Some e, a1)
      | (None, a1) \<Rightarrow> (None, if interrupted message then interrupt a1 else a1))"

text \<open>The messages of a list in order, each with the clock's time at its arrival.\<close>

fun onmessages ::
  "(real \<times> server_message) list \<Rightarrow> audio_session \<Rightarrow> audio_error option \<times> audio_session" where
  "onmessages [] a = (None, a)"
| "onmessages ((currentTime, message) # rest) a =
     (case onmessage currentTime message a of
        (Some e, a1) \<Rightarrow> (Some e, a1)
      | (None, a1) \<Rightarrow> onmessages rest a1)"

text \<open>The refs when a session has opened: nothing is scheduled, the clock ref is 0.\<close>

definition opened_session :: audio_session where
  "opened_session =
     \<lparr>isActiveRef = True, sessionRef = True, outputAudioCtxRef = True,
      nextStartTimeRef = 0, sourcesRef = [], outputTranscriptRef = [],
      created = 0, stopped = [], sent = []\<rparr>"

subsection \<open>Notions for the statements about playback\<close>

text \<open>The duration of a chunk of 16-bit mono samples at 24000 samples a second.\<close>

definition chunk_duration :: "8 word list \<Rightarrow> real" where
  "chunk_duration data' = real (length data' div 2) / 24000"

text \<open>A message that carries the audio \<open>data'\<close> and no interruption.\<close>

definition audio_message :: "8 word list \<Rightarrow> server_message" where
  "audio_message data' = \<lparr>inlineData = Some data', interrupted = False\<rparr>"

text \<open>
  The start times the playback contract gives to chunks that arrive at the clock times
  \<open>t\<close> with the bytes \<open>b\<close>, when the next start time is \<open>nextStart\<close>: each chunk starts at the
  later of the next start time and the clock, and the next start time is the chunk's end.
\<close>

fun schedule :: "real \<Rightarrow> (real \<times> 8 word list) list \<Rightarrow> real list" where
  "schedule nextStart [] = []"
| "schedule nextStart ((t, b) # chunks) =
     max nextStart t # schedule (max nextStart t + chunk_duration b) chunks"

text \<open>The next start time after these chunks.\<close>

fun schedule_end :: "real \<Rightarrow> (real \<times> 8 word list) list \<Rightarrow> real" where
  "schedule_end nextStart [] = nextStart"
| "schedule_end nextStart ((t, b) # chunks) = schedule_end (max nextStart t + chunk_duration b) chunks"


section \<open>The parser of whiteboard commands (SocraticChat)\<close>

subsection \<open>Decoded payloads\<close>

text \<open>
  The values \<open>JSON.parse\<close> returns. The members of an object are in the order of its
  properties, each key once. A number is finite or, for a literal beyond the range of
  doubles, an infinity.
\<close>

datatype js_number = Finite real | PlusInfinity | MinusInfinity





subsection \<open>The regular expression\<close>

text \<open>
  \<open>/\[BOARD:(\{.*?\})\]/g\<close>. The dot matches every code unit but a line terminator
  (below 256: line feed and carriage return).
\<close>

definition is_line_terminator :: "char \<Rightarrow> bool" where
  "is_line_terminator c = (c = CHR 0x0A \<or> c = CHR 0x0D)"

text \<open>
  After the opening brace: the lazy \<open>.*?\<close> takes the shortest run of characters that is
  followed by \<open>}]\<close>. The result is that run and the text after \<open>}]\<close>; \<open>None\<close> when
  a line terminator or the end of the text comes first.
\<close>

fun lazy_body :: "string \<Rightarrow> (string \<times> string) option" where
  "lazy_body [] = None"
| "lazy_body (c # cs) =
     (if c = CHR ''}'' \<and> (case cs of [] \<Rightarrow> False | d # _ \<Rightarrow> d = CHR '']'')
      then Some ([], tl cs)
      else if is_line_terminator c then None
      else (case lazy_body cs of
              None \<Rightarrow> None
            | Some (body, rest) \<Rightarrow> Some (c # body, rest)))"

text \<open>
  \<open>regex.exec(text)\<close> on the text from \<open>lastIndex\<close> on: the leftmost match, as its
  group 1 and the text after the match (from the new \<open>lastIndex\<close> on), or \<open>None\<close>.
\<close>

fun board_exec :: "string \<Rightarrow> (string \<times> string) option" where
  "board_exec [] = None"
| "board_exec (c # cs) =
     (if prefix ''[BOARD:{'' (c # cs)
      then (case lazy_body (drop 8 (c # cs)) of
              Some (body, rest) \<Rightarrow> Some (''{'' @ body @ ''}'', rest)
            | None \<Rightarrow> board_exec cs)
      else board_exec cs)"

lemma lazy_body_shorter:
  "lazy_body s = Some (body, rest) \<Longrightarrow> length rest < length s"
proof (induction s arbitrary: body)
  case Nil
  then show ?case by simp
next
  case (Cons c cs)
  then show ?case
    by (cases cs) (auto split: if_splits option.splits)
qed

lemma board_exec_shorter:
  "board_exec s = Some (payload, rest) \<Longrightarrow> length rest < length s"
proof (induction s)
  case Nil
  then show ?case by simp
next
  case (Cons c cs)
  show ?case
  proof (cases "prefix ''[BOARD:{'' (c # cs)")
    case True
    show ?thesis
    proof (cases "lazy_body (drop 8 (c # cs))")
      case None
      with True Cons show ?thesis by fastforce
    next
      case (Some br)
      obtain body rest' where br: "br = (body, rest')" by (cases br)
      from Some br have "length rest' < length (drop 8 (c # cs))"
        using lazy_body_shorter by blast
      moreover from Cons.prems True Some br have "rest = rest'" by simp
      ultimately show ?thesis by simp
    qed
  next
    case False
    with Cons show ?thesis by fastforce
  qed
qed

subsection \<open>parseWhiteboardCommands\<close>





subsection \<open>Notions for the statements about the parser\<close>

text \<open>
  The markers of a text, read off the pattern: the payloads of the successive matches, in
  the order of the text. What one marker contributes to the result: its decoded payload
  when the payload parses and has an action, nothing otherwise.
\<close>

function board_markers :: "string \<Rightarrow> string list" where
  "board_markers text' =
     (case board_exec text' of
        None \<Rightarrow> []
      | Some (match1, rest) \<Rightarrow> match1 # board_markers rest)"
  by pat_completeness auto
termination
  by (relation "measure length") (auto dest: board_exec_shorter)

declare board_markers.simps [simp del]






section \<open>Properties of the whiteboard\<close>

subsection \<open>A Write command, step by step\<close>

lemma write_dup:
  assumes "canvasRef s = Some c" and "context2d c"
    and "text_hash txt \<in> renderedHashesRef s"
  shows "executeCommand p (Write txt x y size' color) s =
     (None, s\<lparr>canvasRef := Some (c\<lparr>calls := calls c @ [SetFont (or_number size' 24)]\<rparr>),
              currentYRef := currentYRef s + (or_number size' 24 * 1.4 + CONTENT_PADDING)\<rparr>)"
  using assms
  by (simp add: executeCommand_def on_canvas_def ctx_do_def getNextY_def Let_def)

lemma write_new:
  assumes "canvasRef s = Some c" and "context2d c"
    and "text_hash txt \<notin> renderedHashesRef s"
  shows "executeCommand p (Write txt x y size' color) s =
     (None, s\<lparr>canvasRef := Some (c\<lparr>calls := calls c @ [SetFont (or_number size' 24),
                 SetShadowColor ''rgba(74, 222, 128, 0.3)'', SetShadowBlur 8,
                 SetFillStyle (or_string color ''#4ade80''),
                 FillText txt 40 (currentYRef s), SetShadowBlur 0]\<rparr>),
              currentYRef := currentYRef s + (or_number size' 24 * 1.4 + CONTENT_PADDING),
              renderedHashesRef := insert (text_hash txt) (renderedHashesRef s),
              itemCountRef := itemCountRef s + 1\<rparr>)"
  using assms
  by (simp add: executeCommand_def on_canvas_def ctx_do_def getNextY_def Let_def)

subsection \<open>The bitmap under calls that do not paint\<close>

lemma paint_calls_append:
  "paint_calls P blank (xs @ ys) st = paint_calls P blank ys (paint_calls P blank xs st)"
proof (induction xs arbitrary: st)
  case Nil
  show ?case by simp
next
  case (Cons c xs)
  obtain hist bm where st: "st = (hist, bm)" by (cases st)
  show ?case unfolding st by (simp add: Cons.IH)
qed

lemma bitmap_of_unpainted:
  assumes "\<not> paints k" and "\<not> is_resize k" and "\<forall>h cs. k \<noteq> DrawSnapshot h cs"
  shows "bitmap_of P blank (c\<lparr>calls := calls c @ [k]\<rparr>) = bitmap_of P blank c"
proof -
  obtain hist bm where st: "paint_calls P blank (calls c) ([], \<lambda>_. blank) = (hist, bm)"
    by (cases "paint_calls P blank (calls c) ([], \<lambda>_. blank)")
  show ?thesis using assms
    by (cases k) (simp_all add: bitmap_of_def paint_calls_append st)
qed

subsection \<open>C10: a duplicate Write paints nothing and still moves the cursor\<close>

text \<open>
  C10. On a mounted canvas, a Write command whose hash (the trimmed, lower-cased text cut
  to 30 characters) is already among the rendered hashes returns without an error and
  leaves the bitmap, the painting calls, the item count and the rendered hashes as they
  were; the only call it makes is the assignment of the font. The cursor has nevertheless
  moved down by fontSize * 1.4 + 30, because \<open>getNextY\<close> runs before the hash is looked
  up: the duplicate leaves an empty band on the surface.
\<close>

theorem duplicate_write_leaves_gap:
  assumes "canvasRef s = Some c" and "context2d c"
    and "text_hash txt \<in> renderedHashesRef s"
  shows "\<exists>s' c'. executeCommand p (Write txt x y size' color) s = (None, s')
           \<and> canvasRef s' = Some c'
           \<and> bitmap_of P blank c' = bitmap_of P blank c
           \<and> filter paints (calls c') = filter paints (calls c)
           \<and> height c' = height c
           \<and> itemCountRef s' = itemCountRef s
           \<and> renderedHashesRef s' = renderedHashesRef s
           \<and> currentYRef s' = currentYRef s + (or_number size' 24 * 1.4 + 30)"
  using assms
  by (simp add: write_dup bitmap_of_unpainted CONTENT_PADDING_def)


theorem duplicate_write_leaves_gap_witness:
  "canvasRef (mounted_whiteboard\<lparr>renderedHashesRef := {''text-f = ma''}\<rparr>) = Some mounted_canvas
   \<and> context2d mounted_canvas
   \<and> text_hash ''F = MA '' \<in> renderedHashesRef (mounted_whiteboard\<lparr>renderedHashesRef := {''text-f = ma''}\<rparr>)
   \<and> (\<exists>s' c'. executeCommand example_platform (Write ''F = MA '' (Some 300) (Some 500) None None)
                  (mounted_whiteboard\<lparr>renderedHashesRef := {''text-f = ma''}\<rparr>) = (None, s')
           \<and> canvasRef s' = Some c'
           \<and> bitmap_of (\<lambda>hist call bm. bm) (0 :: nat) c' = bitmap_of (\<lambda>hist call bm. bm) 0 mounted_canvas
           \<and> filter paints (calls c') = filter paints (calls mounted_canvas)
           \<and> height c' = height mounted_canvas
           \<and> itemCountRef s' = 0
           \<and> renderedHashesRef s' = {''text-f = ma''}
           \<and> currentYRef s' = 143.6)"
proof -
  let ?s = "mounted_whiteboard\<lparr>renderedHashesRef := {''text-f = ma''}\<rparr>"
  have h1: "canvasRef ?s = Some mounted_canvas"
    by (simp add: mounted_whiteboard_def)
  have h2: "context2d mounted_canvas"
    by (simp add: mounted_canvas_def)
  have t: "text_hash ''F = MA '' = ''text-f = ma''"
    by code_simp
  have h3: "text_hash ''F = MA '' \<in> renderedHashesRef ?s"
    by (simp add: t)
  have y: "currentYRef ?s + (or_number None 24 * 1.4 + 30) = 143.6"
    by (simp add: mounted_whiteboard_def or_number_def)
  have i: "itemCountRef ?s = 0" "renderedHashesRef ?s = {''text-f = ma''}"
    by (simp_all add: mounted_whiteboard_def)
  note r = duplicate_write_leaves_gap [OF h1 h2 h3, of example_platform "Some 300" "Some 500"
      None None "\<lambda>hist call bm. bm" "0 :: nat", unfolded y i]
  show ?thesis by (intro conjI h1 h2 h3 r)
qed

subsection \<open>C6: where a Write command puts its text\<close>

text \<open>
  C6. On a mounted canvas, every Write command returns without an error, and its result
  does not depend on the position the command carries: it is the result of the same
  command without \<open>x\<close> and \<open>y\<close>. The only painting call it can add is
  \<open>fillText\<close> of its text at the left margin 40 and at the cursor the whiteboard had
  before the command (it adds none when the text's hash was rendered before), and the
  cursor then stands fontSize * 1.4 + 30 further down, where fontSize is the command's
  size, or 24 without one. On a freshly mounted whiteboard the text is painted at
  (40, 80) and the item count becomes 1.
\<close>

theorem write_placed_at_cursor:
  assumes "canvasRef s = Some c" and "context2d c"
  shows "\<exists>s' c'. executeCommand p (Write txt x y size' color) s = (None, s')
           \<and> executeCommand p (Write txt None None size' color) s = (None, s')
           \<and> canvasRef s' = Some c'
           \<and> filter paints (calls c') = filter paints (calls c)
                @ (if text_hash txt \<in> renderedHashesRef s then []
                   else [FillText txt 40 (currentYRef s)])
           \<and> currentYRef s' = currentYRef s + (or_number size' 24 * 1.4 + 30)
           \<and> (\<exists>s1 c1. executeCommand p (Write txt x y size' color) mounted_whiteboard = (None, s1)
                 \<and> canvasRef s1 = Some c1
                 \<and> filter paints (calls c1) = filter paints (calls mounted_canvas)
                      @ [FillText txt 40 80]
                 \<and> currentYRef s1 = 80 + (or_number size' 24 * 1.4 + 30)
                 \<and> itemCountRef s1 = 1)"
proof -
  have m1: "canvasRef mounted_whiteboard = Some mounted_canvas"
    by (simp add: mounted_whiteboard_def)
  have m2: "context2d mounted_canvas"
    by (simp add: mounted_canvas_def)
  have m3: "text_hash txt \<notin> renderedHashesRef mounted_whiteboard"
    by (simp add: mounted_whiteboard_def)
  have first: "\<exists>s1 c1. executeCommand p (Write txt x y size' color) mounted_whiteboard = (None, s1)
                 \<and> canvasRef s1 = Some c1
                 \<and> filter paints (calls c1) = filter paints (calls mounted_canvas)
                      @ [FillText txt 40 80]
                 \<and> currentYRef s1 = 80 + (or_number size' 24 * 1.4 + 30)
                 \<and> itemCountRef s1 = 1"
    unfolding write_new [OF m1 m2 m3]
    by (simp add: mounted_whiteboard_def CONTENT_PADDING_def)
  show ?thesis
  proof (cases "text_hash txt \<in> renderedHashesRef s")
    case True
    show ?thesis
      unfolding write_dup [OF assms True]
      using True first by (simp add: CONTENT_PADDING_def)
  next
    case False
    show ?thesis
      unfolding write_new [OF assms False]
      using False first by (simp add: CONTENT_PADDING_def)
  qed
qed

theorem write_placed_at_cursor_witness:
  "canvasRef mounted_whiteboard = Some mounted_canvas
   \<and> context2d mounted_canvas
   \<and> (\<exists>s' c'. executeCommand example_platform
                   (Write ''F = ma'' (Some 300) (Some 500) (Some 32) None) mounted_whiteboard = (None, s')
           \<and> executeCommand example_platform
                   (Write ''F = ma'' None None (Some 32) None) mounted_whiteboard = (None, s')
           \<and> canvasRef s' = Some c'
           \<and> filter paints (calls c') = filter paints (calls mounted_canvas)
                @ [FillText ''F = ma'' 40 80]
           \<and> currentYRef s' = 154.8
           \<and> itemCountRef s' = 1)"
proof -
  have h1: "canvasRef mounted_whiteboard = Some mounted_canvas"
    by (simp add: mounted_whiteboard_def)
  have h2: "context2d mounted_canvas"
    by (simp add: mounted_canvas_def)
  have v: "(80::real) + (or_number (Some 32) 24 * 1.4 + 30) = 154.8"
    by (simp add: or_number_def)
  from write_placed_at_cursor [OF h1 h2, of example_platform "''F = ma''" "Some 300" "Some 500"
      "Some 32" None]
  obtain s' c' s1 c1 where
    a: "executeCommand example_platform
          (Write ''F = ma'' (Some 300) (Some 500) (Some 32) None) mounted_whiteboard = (None, s')"
    and b: "executeCommand example_platform
          (Write ''F = ma'' None None (Some 32) None) mounted_whiteboard = (None, s')"
    and f: "executeCommand example_platform
          (Write ''F = ma'' (Some 300) (Some 500) (Some 32) None) mounted_whiteboard = (None, s1)"
    and c1: "canvasRef s1 = Some c1"
    and p1: "filter paints (calls c1) = filter paints (calls mounted_canvas)
               @ [FillText ''F = ma'' 40 80]"
    and y1: "currentYRef s1 = 80 + (or_number (Some 32) 24 * 1.4 + 30)"
    and i1: "itemCountRef s1 = 1"
    by (elim exE conjE)
  from a f have eq: "s1 = s'" by simp
  show ?thesis
    using h1 h2 a b c1 p1 y1 i1 unfolding eq v by (intro conjI exI)
qed

subsection \<open>C9: a Clear command erases nothing\<close>

lemma bitmap_of_append_calls:
  "bitmap_of P blank (c\<lparr>calls := calls c @ ks\<rparr>) =
     snd (paint_calls P blank ks (context_history P blank c, bitmap_of P blank c))"
  by (simp add: bitmap_of_def context_history_def paint_calls_append)

text \<open>
  C9. On a mounted canvas, a Clear command returns without an error and only adds calls
  to the canvas's: it strokes one dashed line from (40, y) to (760, y), y the cursor before
  the command, and never assigns the height or clears anything. The bitmap after the
  command is the bitmap before it with that one stroke painted; so every pixel outside a
  region that confines the stroke is as it was. The cursor moves down by 50 + 30; the item
  count, the rendered hashes and the recorded height do not change.
\<close>

theorem clear_keeps_content:
  assumes "canvasRef s = Some c" and "context2d c"
  shows "\<exists>s' c'. executeCommand p Clear s = (None, s')
           \<and> canvasRef s' = Some c'
           \<and> calls c' = calls c @
                [SetStrokeStyle ''rgba(255, 255, 255, 0.1)'', SetLineWidth 1,
                 SetLineDash [10, 10], BeginPath, MoveTo 40 (currentYRef s),
                 LineTo 760 (currentYRef s), Stroke, SetLineDash []]
           \<and> height c' = height c
           \<and> canvasHeightRef s' = canvasHeightRef s
           \<and> bitmap_of P blank c' =
                P (context_history P blank c @
                    [SetStrokeStyle ''rgba(255, 255, 255, 0.1)'', SetLineWidth 1,
                     SetLineDash [10, 10], BeginPath, MoveTo 40 (currentYRef s),
                     LineTo 760 (currentYRef s)])
                  Stroke (bitmap_of P blank c)
           \<and> (\<forall>region.
                 (\<forall>q. q \<notin> region \<longrightarrow>
                    P (context_history P blank c @
                        [SetStrokeStyle ''rgba(255, 255, 255, 0.1)'', SetLineWidth 1,
                         SetLineDash [10, 10], BeginPath, MoveTo 40 (currentYRef s),
                         LineTo 760 (currentYRef s)])
                      Stroke (bitmap_of P blank c) q = bitmap_of P blank c q) \<longrightarrow>
                 (\<forall>q. q \<notin> region \<longrightarrow> bitmap_of P blank c' q = bitmap_of P blank c q))
           \<and> currentYRef s' = currentYRef s + 80
           \<and> itemCountRef s' = itemCountRef s
           \<and> renderedHashesRef s' = renderedHashesRef s"
  using assms
  by (simp add: executeCommand_def getNextY_def on_canvas_def ctx_do_def bitmap_of_append_calls
      CONTENT_PADDING_def CANVAS_WIDTH_def)

theorem clear_keeps_content_witness:
  "canvasRef mounted_whiteboard = Some mounted_canvas
   \<and> context2d mounted_canvas
   \<and> (\<exists>s' c'. executeCommand example_platform Clear mounted_whiteboard = (None, s')
           \<and> canvasRef s' = Some c'
           \<and> height c' = height mounted_canvas
           \<and> bitmap_of example_painter 0 c' (100, 300)
                = bitmap_of example_painter 0 mounted_canvas (100, 300)
           \<and> currentYRef s' = 160
           \<and> itemCountRef s' = 0)"
proof -
  have h1: "canvasRef mounted_whiteboard = Some mounted_canvas"
    by (simp add: mounted_whiteboard_def)
  have h2: "context2d mounted_canvas"
    by (simp add: mounted_canvas_def)
  have v: "currentYRef mounted_whiteboard + 80 = 160" "itemCountRef mounted_whiteboard = 0"
    by (simp_all add: mounted_whiteboard_def)
  from clear_keeps_content [OF h1 h2, of example_platform example_painter 0]
  obtain s' c' where
    a: "executeCommand example_platform Clear mounted_whiteboard = (None, s')"
    and c: "canvasRef s' = Some c'"
    and h: "height c' = height mounted_canvas"
    and r: "\<forall>region.
              (\<forall>q. q \<notin> region \<longrightarrow>
                 example_painter (context_history example_painter 0 mounted_canvas @
                     [SetStrokeStyle ''rgba(255, 255, 255, 0.1)'', SetLineWidth 1,
                      SetLineDash [10, 10], BeginPath, MoveTo 40 (currentYRef mounted_whiteboard),
                      LineTo 760 (currentYRef mounted_whiteboard)])
                   Stroke (bitmap_of example_painter 0 mounted_canvas) q
                 = bitmap_of example_painter 0 mounted_canvas q) \<longrightarrow>
              (\<forall>q. q \<notin> region \<longrightarrow>
                 bitmap_of example_painter 0 c' q = bitmap_of example_painter 0 mounted_canvas q)"
    and y: "currentYRef s' = currentYRef mounted_whiteboard + 80"
    and i: "itemCountRef s' = itemCountRef mounted_whiteboard"
    by (elim exE conjE)
  have loc: "\<forall>q. q \<notin> {q. snd q = 80} \<longrightarrow>
                 example_painter (context_history example_painter 0 mounted_canvas @
                     [SetStrokeStyle ''rgba(255, 255, 255, 0.1)'', SetLineWidth 1,
                      SetLineDash [10, 10], BeginPath, MoveTo 40 (currentYRef mounted_whiteboard),
                      LineTo 760 (currentYRef mounted_whiteboard)])
                   Stroke (bitmap_of example_painter 0 mounted_canvas) q
                 = bitmap_of example_painter 0 mounted_canvas q"
    by (simp add: example_painter_def split: prod.splits)
  have px: "bitmap_of example_painter 0 c' (100, 300)
              = bitmap_of example_painter 0 mounted_canvas (100, 300)"
    using r [rule_format, of "{q. snd q = 80}" "(100, 300)", OF loc [rule_format]] by simp
  show ?thesis
    using h1 h2 a c h px y i unfolding v by (intro conjI exI)
qed

subsection \<open>C2: equal normalised texts are rendered once\<close>

lemma executeCommands_append:
  "executeCommands p (xs @ ys) s =
     (case executeCommands p xs s of
        (Some e, s') \<Rightarrow> (Some e, s')
      | (None, s') \<Rightarrow> executeCommands p ys s')"
proof (induction xs arbitrary: s)
  case Nil
  show ?case by simp
next
  case (Cons x xs)
  show ?case
    by (cases "executeCommand p x s") (simp add: Cons.IH split: option.splits)
qed

lemma write_step:
  assumes "canvasRef s = Some c" and "context2d c"
  shows "\<exists>s' c'. executeCommand p (Write txt x y size' color) s = (None, s')
           \<and> canvasRef s' = Some c' \<and> context2d c'
           \<and> renderedHashesRef s' = insert (text_hash txt) (renderedHashesRef s)
           \<and> itemCountRef s' = itemCountRef s
                + (if text_hash txt \<in> renderedHashesRef s then 0 else 1)
           \<and> painted s' = painted s
                @ (if text_hash txt \<in> renderedHashesRef s then []
                   else [FillText txt 40 (currentYRef s)])"
proof (cases "text_hash txt \<in> renderedHashesRef s")
  case True
  show ?thesis
    unfolding write_dup [OF assms True]
    using True assms by (simp add: painted_def insert_absorb)
next
  case False
  show ?thesis
    unfolding write_new [OF assms False]
    using False assms by (simp add: painted_def)
qed

lemma card_new_hashes:
  assumes "finite H"
  shows "card (insert h H - seen) = (if h \<in> seen then 0 else 1) + card (H - insert h seen)"
proof (cases "h \<in> seen")
  case True
  then have e: "insert h H - seen = H - insert h seen" by blast
  from True show ?thesis by (simp only: e if_True add_0)
next
  case False
  then have e: "insert h H - seen = insert h (H - insert h seen)" by blast
  have n: "h \<notin> H - insert h seen" by blast
  have f: "finite (H - insert h seen)" using assms by (rule finite_Diff)
  have "card (insert h (H - insert h seen)) = Suc (card (H - insert h seen))"
    using f n by (rule card_insert_disjoint)
  with False show ?thesis by (simp only: e if_False plus_1_eq_Suc)
qed

lemma writes_run:
  assumes "canvasRef s = Some c" and "context2d c" and "\<forall>cmd\<in>set cmds. is_write cmd"
  shows "\<exists>s' c'. executeCommands p cmds s = (None, s')
           \<and> canvasRef s' = Some c' \<and> context2d c'
           \<and> renderedHashesRef s' = renderedHashesRef s \<union> write_hash ` set cmds
           \<and> itemCountRef s' = itemCountRef s
                + card (write_hash ` set cmds - renderedHashesRef s)"
  using assms
proof (induction cmds arbitrary: s c)
  case Nil
  then show ?case by simp
next
  case (Cons cmd cmds)
  from Cons.prems(3) have "is_write cmd" by simp
  then obtain tx x y size' color where cmd: "cmd = Write tx x y size' color"
    by (cases cmd) simp_all
  from write_step [OF Cons.prems(1,2), of p tx x y size' color]
  obtain s1 c1 where
    e1: "executeCommand p (Write tx x y size' color) s = (None, s1)"
    and m1: "canvasRef s1 = Some c1" and x1: "context2d c1"
    and h1: "renderedHashesRef s1 = insert (text_hash tx) (renderedHashesRef s)"
    and i1: "itemCountRef s1 = itemCountRef s
               + (if text_hash tx \<in> renderedHashesRef s then 0 else 1)"
    by (elim exE conjE)
  from Cons.prems(3) have rest: "\<forall>cmd\<in>set cmds. is_write cmd" by simp
  from Cons.IH [OF m1 x1 rest]
  obtain s' c' where
    e2: "executeCommands p cmds s1 = (None, s')"
    and m2: "canvasRef s' = Some c'" and x2: "context2d c'"
    and h2: "renderedHashesRef s' = renderedHashesRef s1 \<union> write_hash ` set cmds"
    and i2: "itemCountRef s' = itemCountRef s1
               + card (write_hash ` set cmds - renderedHashesRef s1)"
    by (elim exE conjE)
  have run: "executeCommands p (cmd # cmds) s = (None, s')"
    by (simp add: cmd e1 e2)
  have hashes: "renderedHashesRef s' = renderedHashesRef s \<union> write_hash ` set (cmd # cmds)"
    unfolding h2 h1 cmd by auto
  have "card (write_hash ` set (cmd # cmds) - renderedHashesRef s)
          = (if text_hash tx \<in> renderedHashesRef s then 0 else 1)
            + card (write_hash ` set cmds - insert (text_hash tx) (renderedHashesRef s))"
    using card_new_hashes [of "write_hash ` set cmds" "text_hash tx" "renderedHashesRef s"]
    by (simp add: cmd)
  then have count: "itemCountRef s' = itemCountRef s
                      + card (write_hash ` set (cmd # cmds) - renderedHashesRef s)"
    unfolding i2 i1 h1 by simp
  show ?case
    by (intro exI conjI) (rule run, rule m2, rule x2, rule hashes, rule count)
qed

text \<open>
  C2. On a mounted canvas, take any list of Write commands, run in order from any state
  of the session. No command throws. The item count grows by the number of distinct
  hashes among the commands that were not rendered before (the hash of a text is the
  text trimmed, lower-cased and cut to 30 characters, after the prefix \<open>text-\<close>): by
  one for each group of commands with equal normalised text. The i-th command paints its
  text, at the left margin and the cursor of that moment, and counts as an item exactly
  when no earlier command of the list has the same hash and the hash was not rendered
  before; otherwise it paints nothing and the count stays.
\<close>

theorem writes_deduplicated:
  assumes "canvasRef s = Some c" and "context2d c"
    and "\<forall>cmd\<in>set cmds. is_write cmd"
  shows "fst (executeCommands p cmds s) = None
     \<and> itemCountRef (snd (executeCommands p cmds s))
         = itemCountRef s + card (write_hash ` set cmds - renderedHashesRef s)
     \<and> (\<forall>i<length cmds. \<exists>txt x y size' color.
           cmds ! i = Write txt x y size' color
           \<and> (let before = snd (executeCommands p (take i cmds) s);
                   after = snd (executeCommands p (take (Suc i) cmds) s);
                   dup = (text_hash txt \<in> renderedHashesRef s
                          \<or> (\<exists>j<i. write_hash (cmds ! j) = text_hash txt))
               in painted after = painted before
                    @ (if dup then [] else [FillText txt 40 (currentYRef before)])
                  \<and> itemCountRef after = itemCountRef before + (if dup then 0 else 1)))"
proof (intro conjI allI impI)
  from writes_run [OF assms, of p]
  obtain s' c' where r: "executeCommands p cmds s = (None, s')"
    and i: "itemCountRef s' = itemCountRef s
              + card (write_hash ` set cmds - renderedHashesRef s)"
    by (elim exE conjE)
  show "fst (executeCommands p cmds s) = None" by (simp add: r)
  show "itemCountRef (snd (executeCommands p cmds s))
         = itemCountRef s + card (write_hash ` set cmds - renderedHashesRef s)"
    by (simp add: r i)
next
  fix i assume i: "i < length cmds"
  then have "is_write (cmds ! i)" using assms(3) by simp
  then obtain tx x y size' color where cmd: "cmds ! i = Write tx x y size' color"
    by (cases "cmds ! i") simp_all
  have pre: "\<forall>cmd\<in>set (take i cmds). is_write cmd"
  proof
    fix k assume "k \<in> set (take i cmds)"
    then have "k \<in> set cmds" by (rule in_set_takeD)
    with assms(3) show "is_write k" by simp
  qed
  from writes_run [OF assms(1,2) pre, of p]
  obtain s1 c1 where
    e1: "executeCommands p (take i cmds) s = (None, s1)"
    and m1: "canvasRef s1 = Some c1" and x1: "context2d c1"
    and h1: "renderedHashesRef s1 = renderedHashesRef s \<union> write_hash ` set (take i cmds)"
    by (elim exE conjE)
  from write_step [OF m1 x1, of p tx x y size' color]
  obtain s2 c2 where
    e2: "executeCommand p (Write tx x y size' color) s1 = (None, s2)"
    and i2: "itemCountRef s2 = itemCountRef s1
               + (if text_hash tx \<in> renderedHashesRef s1 then 0 else 1)"
    and p2: "painted s2 = painted s1
               @ (if text_hash tx \<in> renderedHashesRef s1 then []
                  else [FillText tx 40 (currentYRef s1)])"
    by (elim exE conjE)
  have "take (Suc i) cmds = take i cmds @ [cmds ! i]"
    using i by (simp add: take_Suc_conv_app_nth)
  then have after: "executeCommands p (take (Suc i) cmds) s = (None, s2)"
    by (simp add: executeCommands_append e1 cmd e2)
  have seen: "text_hash tx \<in> write_hash ` set (take i cmds) \<longleftrightarrow>
      (\<exists>j<i. write_hash (cmds ! j) = text_hash tx)"
  proof
    assume "text_hash tx \<in> write_hash ` set (take i cmds)"
    then obtain k where k: "k \<in> set (take i cmds)" and hk: "write_hash k = text_hash tx"
      by (metis imageE)
    from k obtain j where "j < length (take i cmds)" and "take i cmds ! j = k"
      by (metis in_set_conv_nth)
    then have "j < i" and "cmds ! j = k" by simp_all
    with hk show "\<exists>j<i. write_hash (cmds ! j) = text_hash tx" by metis
  next
    assume "\<exists>j<i. write_hash (cmds ! j) = text_hash tx"
    then obtain j where j: "j < i" and hj: "write_hash (cmds ! j) = text_hash tx"
      by metis
    from j i have "take i cmds ! j = cmds ! j" and "j < length (take i cmds)" by simp_all
    then have "cmds ! j \<in> set (take i cmds)" by (metis nth_mem)
    with hj show "text_hash tx \<in> write_hash ` set (take i cmds)" by (metis imageI)
  qed
  have dup: "text_hash tx \<in> renderedHashesRef s1 \<longleftrightarrow>
      (text_hash tx \<in> renderedHashesRef s
       \<or> (\<exists>j<i. write_hash (cmds ! j) = text_hash tx))"
    unfolding h1 Un_iff seen ..
  show "\<exists>tx x y size' color.
           cmds ! i = Write tx x y size' color
           \<and> (let before = snd (executeCommands p (take i cmds) s);
                   after = snd (executeCommands p (take (Suc i) cmds) s);
                   dup = (text_hash tx \<in> renderedHashesRef s
                          \<or> (\<exists>j<i. write_hash (cmds ! j) = text_hash tx))
               in painted after = painted before
                    @ (if dup then [] else [FillText tx 40 (currentYRef before)])
                  \<and> itemCountRef after = itemCountRef before + (if dup then 0 else 1))"
    unfolding Let_def e1 after snd_conv
    by (intro exI conjI) (rule cmd, rule p2 [unfolded dup], rule i2 [unfolded dup])
qed

theorem writes_deduplicated_witness:
  "fst (executeCommands example_platform example_writes mounted_whiteboard) = None
   \<and> itemCountRef (snd (executeCommands example_platform example_writes mounted_whiteboard)) = 2
   \<and> painted (snd (executeCommands example_platform (take 3 example_writes) mounted_whiteboard))
       = painted (snd (executeCommands example_platform (take 2 example_writes) mounted_whiteboard))"
proof -
  have h1: "canvasRef mounted_whiteboard = Some mounted_canvas"
    by (simp add: mounted_whiteboard_def)
  have h2: "context2d mounted_canvas"
    by (simp add: mounted_canvas_def)
  have h3: "\<forall>cmd\<in>set example_writes. is_write cmd"
    by (simp add: example_writes_def)
  note t = writes_deduplicated [OF h1 h2 h3, of example_platform]
  have t1: "text_hash ''F = ma'' = ''text-f = ma''" by code_simp
  have t2: "text_hash ''Hello'' = ''text-hello''" by code_simp
  have t3: "text_hash '' f = MA'' = ''text-f = ma''" by code_simp
  have hs: "write_hash ` set example_writes - renderedHashesRef mounted_whiteboard
              = {''text-f = ma'', ''text-hello''}"
    by (simp add: example_writes_def mounted_whiteboard_def t1 t2 t3 insert_commute)
  have n: "itemCountRef mounted_whiteboard
             + card (write_hash ` set example_writes - renderedHashesRef mounted_whiteboard) = 2"
    unfolding hs by (simp add: mounted_whiteboard_def)
  have i: "(2::nat) < length example_writes"
    by (simp add: example_writes_def)
  from t [THEN conjunct2, THEN conjunct2, rule_format, OF i]
  obtain tx x y size' color where
    c: "example_writes ! 2 = Write tx x y size' color"
    and l: "let before = snd (executeCommands example_platform (take 2 example_writes) mounted_whiteboard);
                after = snd (executeCommands example_platform (take (Suc 2) example_writes) mounted_whiteboard);
                dup = (text_hash tx \<in> renderedHashesRef mounted_whiteboard
                       \<or> (\<exists>j<2. write_hash (example_writes ! j) = text_hash tx))
            in painted after = painted before
                 @ (if dup then [] else [FillText tx 40 (currentYRef before)])
               \<and> itemCountRef after = itemCountRef before + (if dup then 0 else 1)"
    by (elim exE conjE)
  from c have tx: "tx = '' f = MA''"
    by (simp add: example_writes_def)
  have "write_hash (example_writes ! 0) = text_hash tx"
    by (simp add: example_writes_def tx t1 t3)
  then have dup: "text_hash tx \<in> renderedHashesRef mounted_whiteboard
                  \<or> (\<exists>j<2. write_hash (example_writes ! j) = text_hash tx)"
    by (intro disjI2 exI [of _ 0]) simp
  have three: "Suc 2 = 3" by simp
  from l dup have p: "painted (snd (executeCommands example_platform (take 3 example_writes) mounted_whiteboard))
       = painted (snd (executeCommands example_platform (take 2 example_writes) mounted_whiteboard))"
    unfolding Let_def three by simp
  show ?thesis
    using t [THEN conjunct1] t [THEN conjunct2, THEN conjunct1] p unfolding n
    by (intro conjI)
qed

subsection \<open>C4: growing the canvas\<close>

lemma background_no_resize: "filter is_resize (drawBackground w h) = []"
  by (simp add: drawBackground_def filter_concat comp_def)

lemma paint_calls_history:
  "filter is_resize cs = [] \<Longrightarrow> fst (paint_calls P blank cs (hist, bm)) = hist @ cs"
proof (induction cs arbitrary: hist bm)
  case Nil
  show ?case by simp
next
  case (Cons c cs)
  from Cons.prems have c: "\<not> is_resize c" and cs: "filter is_resize cs = []"
    by (simp_all split: if_splits)
  show ?case
    using c Cons.IH [OF cs] by (cases c) simp_all
qed

lemma dom_unsigned_long_floor:
  assumes "0 \<le> h" and "\<lfloor>h\<rfloor> \<le> 2147483647"
  shows "dom_unsigned_long h = \<lfloor>h\<rfloor>"
proof -
  have t: "js_trunc h = \<lfloor>h\<rfloor>" using assms(1) by (simp add: js_trunc_def)
  have n: "0 \<le> \<lfloor>h\<rfloor>" using assms(1) by simp
  have "\<lfloor>h\<rfloor> mod 4294967296 = \<lfloor>h\<rfloor>"
    using n assms(2) by (simp add: mod_pos_pos_trivial)
  then show ?thesis
    using assms(2) by (simp add: dom_unsigned_long_def t Let_def)
qed

lemma expand_noop:
  "newHeight \<le> canvasHeightRef s \<Longrightarrow> expandCanvas p newHeight s = s"
  by (simp add: expandCanvas_def split: option.splits)

lemma expand_grows:
  assumes "canvasRef s = Some c" and "context2d c" and "canvasHeightRef s < newHeight"
  shows "expandCanvas p newHeight s =
     s\<lparr>canvasHeightRef := newHeight,
       canvasRef := Some (c\<lparr>height := dom_unsigned_long newHeight,
          calls := calls c
            @ [SetHeight (dom_unsigned_long newHeight)
                 (holds_bitmap p (dom_unsigned_long newHeight))]
            @ drawBackground CANVAS_WIDTH (dom_unsigned_long newHeight)
            @ (if holds_bitmap p (height c) \<and> snapshotLoads p
               then [DrawSnapshot (height c) (calls c)] else [])\<rparr>)\<rparr>"
  using assms
  by (simp add: expandCanvas_def set_canvas_height_def ctx_do_def Let_def)

lemma expand_height:
  assumes "canvasRef s = Some c"
  shows "canvasHeightRef (expandCanvas p newHeight s) = max (canvasHeightRef s) newHeight
         \<and> (\<exists>c'. canvasRef (expandCanvas p newHeight s) = Some c')"
  using assms
  by (simp add: expandCanvas_def set_canvas_height_def ctx_do_def Let_def
      split: option.splits)

lemma expand_all_height:
  assumes "canvasRef s = Some c"
  shows "canvasHeightRef (fold (expandCanvas p) hs s) = Max (insert (canvasHeightRef s) (set hs))"
  using assms
proof (induction hs arbitrary: s c)
  case Nil
  show ?case by simp
next
  case (Cons h hs)
  from expand_height [OF Cons.prems, of p h]
  obtain c' where hh: "canvasHeightRef (expandCanvas p h s) = max (canvasHeightRef s) h"
    and cc: "canvasRef (expandCanvas p h s) = Some c'"
    by (elim exE conjE)
  have "Max (insert (max (canvasHeightRef s) h) (set hs))
          = Max (insert (canvasHeightRef s) (set (h # hs)))"
  proof (cases "hs = []")
    case True
    then show ?thesis by (simp add: max.commute)
  next
    case False
    then show ?thesis by (simp add: max.assoc max.commute max.left_commute)
  qed
  then show ?case
    using Cons.IH [OF cc] by (simp add: hh)
qed

lemma snapshot_restored:
  assumes "filter is_resize bg = []"
  shows "snd (paint_calls P blank
          ([SetHeight n ok] @ bg @ [DrawSnapshot h0 cs0]) st) (x, y)
     = (if ok \<and> 0 \<le> x \<and> x < CANVAS_WIDTH \<and> 0 \<le> y \<and> y < h0
        then snd (paint_calls P blank cs0 ([], \<lambda>_. blank)) (x, y)
        else snd (paint_calls P blank bg ([SetHeight n ok], \<lambda>_. blank)) (x, y))"
proof -
  obtain hist bm where st: "st = (hist, bm)" by (cases st)
  obtain hb bb where bg: "paint_calls P blank bg ([SetHeight n ok], \<lambda>_. blank) = (hb, bb)"
    by (cases "paint_calls P blank bg ([SetHeight n ok], \<lambda>_. blank)")
  have "hb = [SetHeight n ok] @ bg"
    using paint_calls_history [OF assms, of P blank "[SetHeight n ok]" "\<lambda>_. blank"]
    by (simp add: bg)
  then have hb: "has_bitmap hb = ok" by simp
  show ?thesis
    unfolding st by (simp add: paint_calls_append bg hb)
qed

lemma expand_step:
  assumes m: "canvasRef s = Some c" and x: "context2d c" and l: "snapshotLoads p"
    and pos: "0 < height c" and fl: "height c = \<lfloor>canvasHeightRef s\<rfloor>"
    and lim: "height c \<le> maxBitmapHeight p" and big: "maxBitmapHeight p \<le> 2147483647"
    and hle: "h \<le> real_of_int (maxBitmapHeight p)"
  shows "\<exists>c'. canvasRef (expandCanvas p h s) = Some c' \<and> context2d c'
           \<and> 0 < height c'
           \<and> height c' = \<lfloor>canvasHeightRef (expandCanvas p h s)\<rfloor>
           \<and> height c' \<le> maxBitmapHeight p
           \<and> height c \<le> height c'
           \<and> (\<forall>x y. 0 \<le> x \<and> x < CANVAS_WIDTH \<and> 0 \<le> y \<and> y < height c \<longrightarrow>
                  bitmap_of P blank c' (x, y) = bitmap_of P blank c (x, y))"
proof (cases "h \<le> canvasHeightRef s")
  case True
  show ?thesis
    unfolding expand_noop [OF True] using m x pos fl lim by simp
next
  case False
  then have gt: "canvasHeightRef s < h" by simp
  have f3: "height c \<le> \<lfloor>h\<rfloor>"
    unfolding fl using gt by (intro floor_mono) simp
  then have f1: "0 < \<lfloor>h\<rfloor>" using pos by linarith
  then have "1 \<le> h" by (simp only: zero_less_floor)
  then have h0: "0 \<le> h" by simp
  have "\<lfloor>h\<rfloor> \<le> \<lfloor>real_of_int (maxBitmapHeight p)\<rfloor>"
    using hle by (rule floor_mono)
  then have f4: "\<lfloor>h\<rfloor> \<le> maxBitmapHeight p" by simp
  then have f5: "\<lfloor>h\<rfloor> \<le> 2147483647" using big by linarith
  have tr: "dom_unsigned_long h = \<lfloor>h\<rfloor>"
    using h0 f5 by (rule dom_unsigned_long_floor)
  have hb: "holds_bitmap p (height c)" using pos lim by (simp add: holds_bitmap_def)
  have hb': "holds_bitmap p \<lfloor>h\<rfloor>" using f1 f4 by (simp add: holds_bitmap_def)
  let ?c' = "c\<lparr>height := \<lfloor>h\<rfloor>,
          calls := calls c @ [SetHeight \<lfloor>h\<rfloor> True]
            @ drawBackground CANVAS_WIDTH \<lfloor>h\<rfloor>
            @ [DrawSnapshot (height c) (calls c)]\<rparr>"
  have e: "expandCanvas p h s = s\<lparr>canvasHeightRef := h, canvasRef := Some ?c'\<rparr>"
    using expand_grows [OF m x gt] l hb hb' unfolding tr by simp
  have px: "\<forall>x y. 0 \<le> x \<and> x < CANVAS_WIDTH \<and> 0 \<le> y \<and> y < height c \<longrightarrow>
                  bitmap_of P blank ?c' (x, y) = bitmap_of P blank c (x, y)"
  proof (intro allI impI)
    fix x y assume r: "0 \<le> x \<and> x < CANVAS_WIDTH \<and> 0 \<le> y \<and> y < height c"
    have "bitmap_of P blank ?c' (x, y)
            = snd (paint_calls P blank
                ([SetHeight \<lfloor>h\<rfloor> True] @ drawBackground CANVAS_WIDTH \<lfloor>h\<rfloor>
                  @ [DrawSnapshot (height c) (calls c)])
                (paint_calls P blank (calls c) ([], \<lambda>_. blank))) (x, y)"
      unfolding bitmap_of_def by (simp add: paint_calls_append [symmetric])
    also have "\<dots> = snd (paint_calls P blank (calls c) ([], \<lambda>_. blank)) (x, y)"
      unfolding snapshot_restored [OF background_no_resize] using r by simp
    finally show "bitmap_of P blank ?c' (x, y) = bitmap_of P blank c (x, y)"
      by (simp only: bitmap_of_def)
  qed
  show ?thesis
    unfolding e using x f1 f3 f4 px by simp
qed

lemma expand_all_keeps:
  assumes "canvasRef s = Some c" and "context2d c" and "snapshotLoads p"
    and "0 < height c" and "height c = \<lfloor>canvasHeightRef s\<rfloor>"
    and "height c \<le> maxBitmapHeight p" and "maxBitmapHeight p \<le> 2147483647"
    and "\<forall>h\<in>set hs. h \<le> real_of_int (maxBitmapHeight p)"
  shows "\<exists>c'. canvasRef (fold (expandCanvas p) hs s) = Some c' \<and> context2d c'
           \<and> 0 < height c'
           \<and> height c' = \<lfloor>canvasHeightRef (fold (expandCanvas p) hs s)\<rfloor>
           \<and> height c' \<le> maxBitmapHeight p
           \<and> height c \<le> height c'
           \<and> (\<forall>x y. 0 \<le> x \<and> x < CANVAS_WIDTH \<and> 0 \<le> y \<and> y < height c \<longrightarrow>
                  bitmap_of P blank c' (x, y) = bitmap_of P blank c (x, y))"
  using assms
proof (induction hs arbitrary: s c)
  case Nil
  then show ?case by simp
next
  case (Cons h hs)
  from Cons.prems(8) have hle: "h \<le> real_of_int (maxBitmapHeight p)"
    and rest: "\<forall>h\<in>set hs. h \<le> real_of_int (maxBitmapHeight p)"
    by simp_all
  from expand_step [OF Cons.prems(1-7) hle, of P blank]
  obtain c1 where m1: "canvasRef (expandCanvas p h s) = Some c1" and x1: "context2d c1"
    and n1: "0 < height c1"
    and l1: "height c1 = \<lfloor>canvasHeightRef (expandCanvas p h s)\<rfloor>"
    and b1: "height c1 \<le> maxBitmapHeight p"
    and g1: "height c \<le> height c1"
    and p1: "\<forall>x y. 0 \<le> x \<and> x < CANVAS_WIDTH \<and> 0 \<le> y \<and> y < height c \<longrightarrow>
                  bitmap_of P blank c1 (x, y) = bitmap_of P blank c (x, y)"
    by (elim exE conjE)
  from Cons.IH [OF m1 x1 Cons.prems(3) n1 l1 b1 Cons.prems(7) rest]
  obtain c' where m2: "canvasRef (fold (expandCanvas p) hs (expandCanvas p h s)) = Some c'"
    and x2: "context2d c'" and n2: "0 < height c'"
    and l2: "height c'
               = \<lfloor>canvasHeightRef (fold (expandCanvas p) hs (expandCanvas p h s))\<rfloor>"
    and b2: "height c' \<le> maxBitmapHeight p"
    and g2: "height c1 \<le> height c'"
    and p2: "\<forall>x y. 0 \<le> x \<and> x < CANVAS_WIDTH \<and> 0 \<le> y \<and> y < height c1 \<longrightarrow>
                  bitmap_of P blank c' (x, y) = bitmap_of P blank c1 (x, y)"
    by (elim exE conjE)
  have g: "height c \<le> height c'" using g1 g2 by simp
  have px: "\<forall>x y. 0 \<le> x \<and> x < CANVAS_WIDTH \<and> 0 \<le> y \<and> y < height c \<longrightarrow>
                  bitmap_of P blank c' (x, y) = bitmap_of P blank c (x, y)"
  proof (intro allI impI)
    fix x y assume r: "0 \<le> x \<and> x < CANVAS_WIDTH \<and> 0 \<le> y \<and> y < height c"
    with g1 have r1: "0 \<le> x \<and> x < CANVAS_WIDTH \<and> 0 \<le> y \<and> y < height c1" by simp
    from p2 [rule_format, OF r1] p1 [rule_format, OF r]
    show "bitmap_of P blank c' (x, y) = bitmap_of P blank c (x, y)" by simp
  qed
  show ?case
    unfolding fold_simps
    by (intro exI conjI) (rule m2, rule x2, rule n2, rule l2, rule b2, rule g, rule px)
qed

text \<open>
  C4, as the code has it. Take a whiteboard whose canvas is mounted and has its 2D context,
  the height of the canvas being positive and the integral part of the recorded height (as
  on a fresh whiteboard, and after every growth described here), on a platform where the
  snapshot's image loads and a bitmap may have as many rows as the canvas has and as any
  height requested (and never more than \<open>2\<^sup>3\<^sup>1 - 1\<close>). A call of \<open>expandCanvas\<close>
  with a height at most the recorded one changes nothing. A call with a greater height
  records it, takes the snapshot, assigns the canvas's height (its integral part; this
  clears the bitmap), paints the background and draws the snapshot at the origin, in this
  order, before it resolves. After any sequence of calls the recorded height is the
  greatest of the height recorded before the sequence (800 on a fresh whiteboard) and the
  heights requested, the height of the canvas is the integral part of that number, and
  every pixel of the bitmap as it was before the sequence has kept its value.
\<close>

theorem grow_keeps_content:
  assumes "canvasRef s = Some c" and "context2d c" and "snapshotLoads p"
    and "0 < height c" and "height c = \<lfloor>canvasHeightRef s\<rfloor>"
    and "height c \<le> maxBitmapHeight p" and "maxBitmapHeight p \<le> 2147483647"
    and "\<forall>h\<in>set hs. h \<le> real_of_int (maxBitmapHeight p)"
  shows "(\<forall>h. h \<le> canvasHeightRef s \<longrightarrow> expandCanvas p h s = s)
     \<and> (\<forall>h. canvasHeightRef s < h \<and> h \<le> real_of_int (maxBitmapHeight p) \<longrightarrow>
           expandCanvas p h s =
             s\<lparr>canvasHeightRef := h,
               canvasRef := Some (c\<lparr>height := \<lfloor>h\<rfloor>,
                  calls := calls c @ [SetHeight \<lfloor>h\<rfloor> True]
                    @ drawBackground CANVAS_WIDTH \<lfloor>h\<rfloor>
                    @ [DrawSnapshot (height c) (calls c)]\<rparr>)\<rparr>)
     \<and> canvasHeightRef (fold (expandCanvas p) hs s)
           = Max (insert (canvasHeightRef s) (set hs))
     \<and> (\<exists>c'. canvasRef (fold (expandCanvas p) hs s) = Some c'
            \<and> height c' = \<lfloor>Max (insert (canvasHeightRef s) (set hs))\<rfloor>
            \<and> height c \<le> height c'
            \<and> (\<forall>x y. 0 \<le> x \<and> x < CANVAS_WIDTH \<and> 0 \<le> y \<and> y < height c \<longrightarrow>
                   bitmap_of P blank c' (x, y) = bitmap_of P blank c (x, y)))"
proof (intro conjI allI impI)
  fix h assume "h \<le> canvasHeightRef s"
  then show "expandCanvas p h s = s" by (rule expand_noop)
next
  fix h assume b: "canvasHeightRef s < h \<and> h \<le> real_of_int (maxBitmapHeight p)"
  then have gt: "canvasHeightRef s < h" and hle: "h \<le> real_of_int (maxBitmapHeight p)"
    by simp_all
  have f3: "height c \<le> \<lfloor>h\<rfloor>"
    unfolding assms(5) using gt by (intro floor_mono) simp
  then have f1: "0 < \<lfloor>h\<rfloor>" using assms(4) by linarith
  then have "1 \<le> h" by (simp only: zero_less_floor)
  then have h0: "0 \<le> h" by simp
  have "\<lfloor>h\<rfloor> \<le> \<lfloor>real_of_int (maxBitmapHeight p)\<rfloor>"
    using hle by (rule floor_mono)
  then have f4: "\<lfloor>h\<rfloor> \<le> maxBitmapHeight p" by simp
  then have f5: "\<lfloor>h\<rfloor> \<le> 2147483647" using assms(7) by linarith
  have tr: "dom_unsigned_long h = \<lfloor>h\<rfloor>"
    using h0 f5 by (rule dom_unsigned_long_floor)
  have hb: "holds_bitmap p (height c)" using assms(4,6) by (simp add: holds_bitmap_def)
  have hb': "holds_bitmap p \<lfloor>h\<rfloor>" using f1 f4 by (simp add: holds_bitmap_def)
  show "expandCanvas p h s =
             s\<lparr>canvasHeightRef := h,
               canvasRef := Some (c\<lparr>height := \<lfloor>h\<rfloor>,
                  calls := calls c @ [SetHeight \<lfloor>h\<rfloor> True]
                    @ drawBackground CANVAS_WIDTH \<lfloor>h\<rfloor>
                    @ [DrawSnapshot (height c) (calls c)]\<rparr>)\<rparr>"
    using expand_grows [OF assms(1,2) gt] assms(3) hb hb' unfolding tr by simp
next
  show "canvasHeightRef (fold (expandCanvas p) hs s)
           = Max (insert (canvasHeightRef s) (set hs))"
    using assms(1) by (rule expand_all_height)
next
  from expand_all_keeps [OF assms, of P blank]
  obtain c' where m: "canvasRef (fold (expandCanvas p) hs s) = Some c'"
    and fl: "height c' = \<lfloor>canvasHeightRef (fold (expandCanvas p) hs s)\<rfloor>"
    and g: "height c \<le> height c'"
    and px: "\<forall>x y. 0 \<le> x \<and> x < CANVAS_WIDTH \<and> 0 \<le> y \<and> y < height c \<longrightarrow>
                   bitmap_of P blank c' (x, y) = bitmap_of P blank c (x, y)"
    by (elim exE conjE)
  have fl': "height c' = \<lfloor>Max (insert (canvasHeightRef s) (set hs))\<rfloor>"
    using fl unfolding expand_all_height [OF assms(1)] .
  show "\<exists>c'. canvasRef (fold (expandCanvas p) hs s) = Some c'
            \<and> height c' = \<lfloor>Max (insert (canvasHeightRef s) (set hs))\<rfloor>
            \<and> height c \<le> height c'
            \<and> (\<forall>x y. 0 \<le> x \<and> x < CANVAS_WIDTH \<and> 0 \<le> y \<and> y < height c \<longrightarrow>
                   bitmap_of P blank c' (x, y) = bitmap_of P blank c (x, y))"
    by (intro exI conjI) (rule m, rule fl', rule g, rule px)
qed

theorem grow_keeps_content_witness:
  "expandCanvas example_platform 500 mounted_whiteboard = mounted_whiteboard
   \<and> canvasHeightRef (expandCanvas example_platform 1200.5 mounted_whiteboard) = 1200.5
   \<and> map_option height (canvasRef (expandCanvas example_platform 1200.5 mounted_whiteboard))
        = Some 1200
   \<and> canvasHeightRef (fold (expandCanvas example_platform) [500, 1200.5, 900] mounted_whiteboard)
        = 1200.5
   \<and> (\<exists>c'. canvasRef (fold (expandCanvas example_platform) [500, 1200.5, 900] mounted_whiteboard)
               = Some c'
          \<and> height c' = 1200
          \<and> bitmap_of example_painter 0 c' (100, 300)
               = bitmap_of example_painter 0 mounted_canvas (100, 300))"
proof -
  have h1: "canvasRef mounted_whiteboard = Some mounted_canvas"
    by (simp add: mounted_whiteboard_def)
  have h2: "context2d mounted_canvas"
    by (simp add: mounted_canvas_def)
  have h3: "snapshotLoads example_platform"
    by (simp add: example_platform_def)
  have h4: "0 < height mounted_canvas"
    by (simp add: mounted_canvas_def MIN_CANVAS_HEIGHT_def)
  have h5: "height mounted_canvas = \<lfloor>canvasHeightRef mounted_whiteboard\<rfloor>"
    by (simp add: mounted_canvas_def mounted_whiteboard_def)
  have h6: "height mounted_canvas \<le> maxBitmapHeight example_platform"
    by (simp add: mounted_canvas_def MIN_CANVAS_HEIGHT_def example_platform_def)
  have h7: "maxBitmapHeight example_platform \<le> 2147483647"
    by (simp add: example_platform_def)
  have h8: "\<forall>h\<in>set [500, 1200.5, 900]. h \<le> real_of_int (maxBitmapHeight example_platform)"
    by (simp add: example_platform_def)
  note t = grow_keeps_content [OF h1 h2 h3 h4 h5 h6 h7 h8, of example_painter 0]
  have v: "canvasHeightRef mounted_whiteboard = 800"
    by (simp add: mounted_whiteboard_def MIN_CANVAS_HEIGHT_def)
  have w: "real_of_int (maxBitmapHeight example_platform) = 65535"
    by (simp add: example_platform_def)
  have fl: "\<lfloor>1200.5 :: real\<rfloor> = 1200"
    by (simp add: floor_eq_iff)
  have a: "expandCanvas example_platform 500 mounted_whiteboard = mounted_whiteboard"
    using t [THEN conjunct1, rule_format, of 500] by (simp add: v)
  have e: "expandCanvas example_platform 1200.5 mounted_whiteboard =
          mounted_whiteboard\<lparr>canvasHeightRef := 1200.5,
               canvasRef := Some (mounted_canvas\<lparr>height := 1200,
                  calls := calls mounted_canvas @ [SetHeight 1200 True]
                    @ drawBackground CANVAS_WIDTH 1200
                    @ [DrawSnapshot (height mounted_canvas) (calls mounted_canvas)]\<rparr>)\<rparr>"
    using t [THEN conjunct2, THEN conjunct1, rule_format, of "1200.5"] by (simp add: v w)
  have b: "canvasHeightRef (expandCanvas example_platform 1200.5 mounted_whiteboard) = 1200.5"
    unfolding e by simp
  have b': "map_option height (canvasRef (expandCanvas example_platform 1200.5 mounted_whiteboard))
        = Some 1200"
    unfolding e by simp
  have c: "canvasHeightRef (fold (expandCanvas example_platform) [500, 1200.5, 900] mounted_whiteboard)
        = 1200.5"
    using t [THEN conjunct2, THEN conjunct2, THEN conjunct1] by (simp add: v)
  from t [THEN conjunct2, THEN conjunct2, THEN conjunct2]
  obtain c' where m: "canvasRef (fold (expandCanvas example_platform) [500, 1200.5, 900]
                         mounted_whiteboard) = Some c'"
    and hh: "height c' = \<lfloor>Max (insert (canvasHeightRef mounted_whiteboard)
                                  (set [500, 1200.5, 900]))\<rfloor>"
    and px: "\<forall>x y. 0 \<le> x \<and> x < CANVAS_WIDTH \<and> 0 \<le> y \<and> y < height mounted_canvas \<longrightarrow>
                   bitmap_of example_painter 0 c' (x, y)
                     = bitmap_of example_painter 0 mounted_canvas (x, y)"
    by (elim exE conjE)
  have hh': "height c' = 1200"
    using hh by (simp add: v fl)
  have d: "bitmap_of example_painter 0 c' (100, 300)
               = bitmap_of example_painter 0 mounted_canvas (100, 300)"
    using px [rule_format, of 100 300]
    by (simp add: CANVAS_WIDTH_def mounted_canvas_def MIN_CANVAS_HEIGHT_def)
  show ?thesis
    by (intro conjI exI) (rule a, rule b, rule b', rule c, rule m, rule hh', rule d)
qed

text \<open>
  The height after a sequence of calls is not the greatest height requested when every
  request is below the height the canvas already has: a fresh whiteboard asked to grow to
  500 stays at 800.
\<close>

theorem grow_below_initial_height_counterexample:
  "canvasHeightRef (fold (expandCanvas example_platform) [500] mounted_whiteboard) = 800
   \<and> Max (set [500 :: real]) = 500
   \<and> canvasHeightRef (fold (expandCanvas example_platform) [500] mounted_whiteboard)
        \<noteq> Max (set [500])"
  by (simp add: expand_noop mounted_whiteboard_def MIN_CANVAS_HEIGHT_def)

text \<open>
  Beyond the bounds of the statement. A height above \<open>2\<^sup>3\<^sup>1 - 1\<close> is recorded as
  requested while the canvas takes the default height 150; a height above the platform's
  limit gives a canvas without a bitmap, on which the snapshot is not restored: what is
  left is what painting the background on such a canvas gives.
\<close>

lemma grow_beyond_unsigned_long:
  "map_option height (canvasRef (expandCanvas example_platform 3000000000 mounted_whiteboard))
     = Some 150
   \<and> canvasHeightRef (expandCanvas example_platform 3000000000 mounted_whiteboard) = 3000000000"
  by (simp add: expandCanvas_def set_canvas_height_def dom_unsigned_long_def js_trunc_def
      holds_bitmap_def ctx_do_def mounted_whiteboard_def mounted_canvas_def example_platform_def
      MIN_CANVAS_HEIGHT_def Let_def)

lemma grow_beyond_bitmap_limit:
  "\<exists>c'. canvasRef (expandCanvas example_platform 70000 mounted_whiteboard) = Some c'
      \<and> height c' = 70000
      \<and> (\<forall>x y. bitmap_of P blank c' (x, y)
           = snd (paint_calls P blank (drawBackground CANVAS_WIDTH 70000)
                    ([SetHeight 70000 False], \<lambda>_. blank)) (x, y))"
proof -
  have e: "expandCanvas example_platform 70000 mounted_whiteboard =
     mounted_whiteboard\<lparr>canvasHeightRef := 70000,
       canvasRef := Some (mounted_canvas\<lparr>height := 70000,
          calls := calls mounted_canvas @ [SetHeight 70000 False]
            @ drawBackground CANVAS_WIDTH 70000
            @ [DrawSnapshot 800 (calls mounted_canvas)]\<rparr>)\<rparr>"
    by (simp add: expandCanvas_def set_canvas_height_def dom_unsigned_long_def js_trunc_def
      holds_bitmap_def ctx_do_def mounted_whiteboard_def mounted_canvas_def example_platform_def
      MIN_CANVAS_HEIGHT_def Let_def)
  have "bitmap_of P blank (mounted_canvas\<lparr>height := 70000,
          calls := calls mounted_canvas @ [SetHeight 70000 False]
            @ drawBackground CANVAS_WIDTH 70000
            @ [DrawSnapshot 800 (calls mounted_canvas)]\<rparr>) (x, y)
      = snd (paint_calls P blank (drawBackground CANVAS_WIDTH 70000)
                    ([SetHeight 70000 False], \<lambda>_. blank)) (x, y)" for x y
  proof -
    have "bitmap_of P blank (mounted_canvas\<lparr>height := 70000,
          calls := calls mounted_canvas @ [SetHeight 70000 False]
            @ drawBackground CANVAS_WIDTH 70000
            @ [DrawSnapshot 800 (calls mounted_canvas)]\<rparr>) (x, y)
        = snd (paint_calls P blank
                ([SetHeight 70000 False] @ drawBackground CANVAS_WIDTH 70000
                  @ [DrawSnapshot 800 (calls mounted_canvas)])
                (paint_calls P blank (calls mounted_canvas) ([], \<lambda>_. blank))) (x, y)"
      unfolding bitmap_of_def by (simp add: paint_calls_append [symmetric])
    also have "\<dots> = snd (paint_calls P blank (drawBackground CANVAS_WIDTH 70000)
                    ([SetHeight 70000 False], \<lambda>_. blank)) (x, y)"
      unfolding snapshot_restored [OF background_no_resize] by simp
    finally show ?thesis .
  qed
  then show ?thesis
    unfolding e by simp
qed

subsection \<open>C7: an image that does not fit\<close>

lemma border_no_resize: "filter is_resize (drawImageWithBorder d x y w h) = []"
  by (simp add: drawImageWithBorder_def)

text \<open>
  C7, as the code has it. On a mounted canvas with its 2D context, when the image loads
  (with a positive width) and the height the code requires for it, the image's top plus
  its height plus 100, exceeds the recorded height of the canvas, \<open>renderImage\<close> grows
  the canvas once, to the required height plus 300, and draws the image only after the
  growth has resolved. The calls added are the assignment of the height, the background,
  the snapshot (when the old canvas had a bitmap to take it from and its image loads; the
  growth resolves without it otherwise), and then the image with its border. The recorded
  height is the required height plus 300; the height of the canvas is that number as an
  \<open>unsigned long\<close>, its integral part when it lies between 0 and \<open>2\<^sup>3\<^sup>1\<close>. The
  item count grows by one.
\<close>

theorem image_grows_canvas_first:
  assumes "canvasRef s = Some c" and "context2d c"
    and "decodeImage p imageData = Some (img_width, img_height)" and "0 < img_width"
    and "imgWidth = or_number width' 550"
    and "imgHeight = or_number height' (real img_height * (imgWidth / real img_width))"
    and "imgX = (case x of Some v \<Rightarrow> v | None \<Rightarrow> (800 - imgWidth) / 2)"
    and "imgY = (case y of Some v \<Rightarrow> v | None \<Rightarrow> currentYRef s)"
    and "neededHeight = imgY + imgHeight + 100"
    and "canvasHeightRef s < neededHeight"
    and "n = dom_unsigned_long (neededHeight + 300)"
  shows "\<exists>s' c'. renderImage p imageData x y width' height' s = s'
           \<and> canvasRef s' = Some c'
           \<and> calls c' = calls c
                @ [SetHeight n (holds_bitmap p n)]
                @ drawBackground CANVAS_WIDTH n
                @ (if holds_bitmap p (height c) \<and> snapshotLoads p
                   then [DrawSnapshot (height c) (calls c)] else [])
                @ drawImageWithBorder imageData imgX imgY imgWidth imgHeight
           \<and> length (filter is_resize (drop (length (calls c)) (calls c'))) = 1
           \<and> height c' = n
           \<and> (0 \<le> neededHeight + 300 \<and> neededHeight + 300 < 2147483648
                \<longrightarrow> n = \<lfloor>neededHeight + 300\<rfloor>)
           \<and> canvasHeightRef s' = neededHeight + 300
           \<and> itemCountRef s' = itemCountRef s + 1"
proof -
  have fl: "0 \<le> neededHeight + 300 \<and> neededHeight + 300 < 2147483648
                \<longrightarrow> n = \<lfloor>neededHeight + 300\<rfloor>"
  proof
    assume b: "0 \<le> neededHeight + 300 \<and> neededHeight + 300 < 2147483648"
    then have "\<lfloor>neededHeight + 300\<rfloor> < 2147483648" by (simp only: floor_less_iff) simp
    then have "\<lfloor>neededHeight + 300\<rfloor> \<le> 2147483647" by linarith
    with b show "n = \<lfloor>neededHeight + 300\<rfloor>"
      unfolding assms(11) by (intro dom_unsigned_long_floor) simp_all
  qed
  show ?thesis
  proof (cases y)
    case None
    with assms(1-10) fl show ?thesis
      unfolding assms(11)
      by (simp add: renderImage_def getNextY_def Let_def expand_grows on_canvas_def
          ctx_do_def CANVAS_WIDTH_def background_no_resize border_no_resize
          split: option.splits)
  next
    case (Some v)
    with assms(1-10) fl show ?thesis
      unfolding assms(11)
      by (simp add: renderImage_def Let_def expand_grows on_canvas_def ctx_do_def
          CANVAS_WIDTH_def background_no_resize border_no_resize
          split: option.splits)
  qed
qed

theorem image_grows_canvas_first_witness:
  "\<exists>s' c'. renderImage example_platform ''iVBORw0KGgo='' None (Some 600) None None
               mounted_whiteboard = s'
           \<and> canvasRef s' = Some c'
           \<and> calls c' = calls mounted_canvas
                @ [SetHeight 1412 True]
                @ drawBackground CANVAS_WIDTH 1412
                @ [DrawSnapshot (height mounted_canvas) (calls mounted_canvas)]
                @ drawImageWithBorder ''iVBORw0KGgo='' 125 600 550 412.5
           \<and> length (filter is_resize (drop (length (calls mounted_canvas)) (calls c'))) = 1
           \<and> height c' = 1412
           \<and> canvasHeightRef s' = 1412.5
           \<and> itemCountRef s' = 1"
proof -
  have h1: "canvasRef mounted_whiteboard = Some mounted_canvas"
    by (simp add: mounted_whiteboard_def)
  have h2: "context2d mounted_canvas"
    by (simp add: mounted_canvas_def)
  have h4: "decodeImage example_platform ''iVBORw0KGgo='' = Some (1024, 768)"
    by (simp add: example_platform_def)
  have h5: "(0::nat) < 1024" by simp
  have h6: "(550::real) = or_number None 550"
    by (simp add: or_number_def)
  have h7: "(412.5::real) = or_number None (real 768 * (550 / real 1024))"
    by (simp add: or_number_def)
  have h8: "(125::real) = (case None of Some v \<Rightarrow> v | None \<Rightarrow> (800 - 550) / 2)"
    by simp
  have h9: "(600::real) = (case Some 600 of Some v \<Rightarrow> v | None \<Rightarrow> currentYRef mounted_whiteboard)"
    by simp
  have h10: "(1112.5::real) = 600 + 412.5 + 100" by simp
  have h11: "canvasHeightRef mounted_whiteboard < 1112.5"
    by (simp add: mounted_whiteboard_def MIN_CANVAS_HEIGHT_def)
  have fl: "\<lfloor>2825 / 2 :: real\<rfloor> = 1412"
    by (simp add: floor_eq_iff)
  have h12: "(1412::int) = dom_unsigned_long (1112.5 + 300)"
    by (simp add: dom_unsigned_long_def js_trunc_def fl)
  have v: "holds_bitmap example_platform 1412"
    "holds_bitmap example_platform (height mounted_canvas) \<and> snapshotLoads example_platform"
    "(1112.5::real) + 300 = 1412.5"
    "itemCountRef mounted_whiteboard + 1 = 1"
    by (simp_all add: holds_bitmap_def example_platform_def mounted_canvas_def
        MIN_CANVAS_HEIGHT_def mounted_whiteboard_def)
  note t = image_grows_canvas_first [OF h1 h2 h4 h5 h6 h7 h8 h9 h10 h11 h12]
  from t obtain s' c' where
    a1: "renderImage example_platform ''iVBORw0KGgo='' None (Some 600) None None
               mounted_whiteboard = s'"
    and a2: "canvasRef s' = Some c'"
    and a3: "calls c' = calls mounted_canvas
                @ [SetHeight 1412 (holds_bitmap example_platform 1412)]
                @ drawBackground CANVAS_WIDTH 1412
                @ (if holds_bitmap example_platform (height mounted_canvas)
                      \<and> snapshotLoads example_platform
                   then [DrawSnapshot (height mounted_canvas) (calls mounted_canvas)] else [])
                @ drawImageWithBorder ''iVBORw0KGgo='' 125 600 550 412.5"
    and a4: "length (filter is_resize (drop (length (calls mounted_canvas)) (calls c'))) = 1"
    and a5: "height c' = 1412"
    and a6: "canvasHeightRef s' = 1112.5 + 300"
    and a7: "itemCountRef s' = itemCountRef mounted_whiteboard + 1"
    by (elim exE conjE)
  have b3: "calls c' = calls mounted_canvas
                @ [SetHeight 1412 True]
                @ drawBackground CANVAS_WIDTH 1412
                @ [DrawSnapshot (height mounted_canvas) (calls mounted_canvas)]
                @ drawImageWithBorder ''iVBORw0KGgo='' 125 600 550 412.5"
    using a3 v(1,2) by simp
  have b6: "canvasHeightRef s' = 1412.5" using a6 by simp
  have b7: "itemCountRef s' = 1" using a7 v(4) by simp
  show ?thesis
    by (intro exI [of _ s'] exI [of _ c'] conjI)
      (rule a1, rule a2, rule b3, rule a4, rule a5, rule b6, rule b7)
qed

text \<open>
  The growth is not to the least sufficient height. An image 1024 by 768 placed at
  y = 600 on a fresh whiteboard is drawn 550 by 412.5 and ends at 1012.5; the code
  requires 1112.5 and grows the canvas to 1412.5.
\<close>

theorem image_growth_not_minimal_counterexample:
  "canvasHeightRef (renderImage example_platform ''iVBORw0KGgo='' None (Some 600) None None
       mounted_whiteboard) = 1412.5
   \<and> last (painted (renderImage example_platform ''iVBORw0KGgo='' None (Some 600) None None
       mounted_whiteboard)) = StrokeRect 125 600 550 412.5
   \<and> (600 + 412.5 + 100 :: real) < 1412.5"
  by (simp add: renderImage_def example_platform_def mounted_whiteboard_def mounted_canvas_def
      expandCanvas_def set_canvas_height_def ctx_do_def on_canvas_def painted_def
      drawImageWithBorder_def or_number_def Let_def MIN_CANVAS_HEIGHT_def CANVAS_WIDTH_def
      holds_bitmap_def)

text \<open>
  An image placed at y = 3000000000 requires a height above \<open>2\<^sup>3\<^sup>1 - 1\<close>: the canvas
  takes the default height 150.
\<close>

lemma image_beyond_unsigned_long:
  "map_option height (canvasRef (renderImage example_platform ''iVBORw0KGgo='' None
       (Some 3000000000) None None mounted_whiteboard)) = Some 150"
proof -
  have fl: "\<lfloor>6000001625 / 2 :: real\<rfloor> = 3000000812"
    by (simp add: floor_eq_iff)
  show ?thesis
    by (simp add: renderImage_def example_platform_def mounted_whiteboard_def mounted_canvas_def
      expandCanvas_def set_canvas_height_def ctx_do_def on_canvas_def
      or_number_def Let_def MIN_CANVAS_HEIGHT_def CANVAS_WIDTH_def
      holds_bitmap_def dom_unsigned_long_def js_trunc_def fl)
qed

section \<open>Properties of the audio bridge\<close>

subsection \<open>C8: capture\<close>







subsection \<open>C3: the times at which chunks are scheduled\<close>

lemma length_int16_view: "length (int16_view bs) = length bs div 2"
  by (induction bs rule: int16_view.induct) simp_all

lemma decode_chunk:
  assumes "even (length bs)" and "bs \<noteq> []"
  shows "\<exists>buf. decodeAudioData bs 24000 1 = Inr buf \<and> buffer_duration buf = chunk_duration bs"
proof -
  have "length bs \<noteq> 1" using assms(1) by auto
  moreover have "length bs \<noteq> 0" using assms(2) by simp
  ultimately have "2 \<le> length bs" by linarith
  then have pos: "length bs div 2 \<noteq> 0" by simp
  have "length (int16_view bs) \<noteq> 0" using pos by (simp add: length_int16_view)
  then have ne: "int16_view bs \<noteq> []" by simp
  show ?thesis
    using assms(1) pos ne
    by (simp add: decodeAudioData_def Let_def length_int16_view buffer_duration_def
        buffer_length_def chunk_duration_def)
qed

lemma play_chunk:
  assumes "even (length bs)" and "bs \<noteq> []"
  shows "\<exists>buf. play_audio t bs a =
     (None, a\<lparr>nextStartTimeRef := max (nextStartTimeRef a) t + chunk_duration bs,
               sourcesRef := sourcesRef a @
                 [\<lparr>source_id = created a, start_time = max (nextStartTimeRef a) t,
                   source_buffer = buf\<rparr>],
               created := created a + 1\<rparr>)"
proof -
  from decode_chunk [OF assms] obtain buf where
    d: "decodeAudioData bs 24000 1 = Inr buf" and l: "buffer_duration buf = chunk_duration bs"
    by (elim exE conjE)
  show ?thesis
    unfolding play_audio_def Let_def d
    by (rule exI [of _ buf]) (simp add: l)
qed


lemma audio_message_step:
  assumes "outputAudioCtxRef a" and "even (length b)" and "b \<noteq> []"
  shows "\<exists>a1. onmessage t (audio_message b) a = (None, a1)
           \<and> outputAudioCtxRef a1
           \<and> nextStartTimeRef a1 = max (nextStartTimeRef a) t + chunk_duration b
           \<and> map start_time (sourcesRef a1)
                = map start_time (sourcesRef a) @ [max (nextStartTimeRef a) t]"
proof -
  from play_chunk [OF assms(2,3), of t a] obtain buf where
    p: "play_audio t b a =
     (None, a\<lparr>nextStartTimeRef := max (nextStartTimeRef a) t + chunk_duration b,
               sourcesRef := sourcesRef a @
                 [\<lparr>source_id = created a, start_time = max (nextStartTimeRef a) t,
                   source_buffer = buf\<rparr>],
               created := created a + 1\<rparr>)"
    by (elim exE)
  show ?thesis
    using assms(1) by (simp add: onmessage_def audio_message_def p)
qed

lemma audio_messages_run:
  assumes "outputAudioCtxRef a" and "\<forall>(t, b)\<in>set chunks. even (length b) \<and> b \<noteq> []"
  shows "\<exists>a'. onmessages (map (\<lambda>(t, b). (t, audio_message b)) chunks) a = (None, a')
           \<and> outputAudioCtxRef a'
           \<and> nextStartTimeRef a' = schedule_end (nextStartTimeRef a) chunks
           \<and> map start_time (sourcesRef a')
                = map start_time (sourcesRef a) @ schedule (nextStartTimeRef a) chunks"
  using assms
proof (induction chunks arbitrary: a)
  case Nil
  then show ?case by simp
next
  case (Cons c chunks)
  obtain t b where c: "c = (t, b)" by (cases c)
  from Cons.prems(2) have ok: "even (length b)" "b \<noteq> []"
    and rest: "\<forall>(t, b)\<in>set chunks. even (length b) \<and> b \<noteq> []"
    by (simp_all add: c)
  from audio_message_step [OF Cons.prems(1) ok, of t] obtain a1 where
    s1: "onmessage t (audio_message b) a = (None, a1)"
    and x1: "outputAudioCtxRef a1"
    and n1: "nextStartTimeRef a1 = max (nextStartTimeRef a) t + chunk_duration b"
    and m1: "map start_time (sourcesRef a1)
                = map start_time (sourcesRef a) @ [max (nextStartTimeRef a) t]"
    by (elim exE conjE)
  from Cons.IH [OF x1 rest] obtain a' where
    s2: "onmessages (map (\<lambda>(t, b). (t, audio_message b)) chunks) a1 = (None, a')"
    and x2: "outputAudioCtxRef a'"
    and n2: "nextStartTimeRef a' = schedule_end (nextStartTimeRef a1) chunks"
    and m2: "map start_time (sourcesRef a')
                = map start_time (sourcesRef a1) @ schedule (nextStartTimeRef a1) chunks"
    by (elim exE conjE)
  show ?case
    by (rule exI [of _ a']) (simp add: c s1 s2 x2 n2 m2 n1 m1)
qed

lemma length_schedule: "length (schedule nx chunks) = length chunks"
  by (induction nx chunks rule: schedule.induct) simp_all

lemma schedule_first:
  "chunks \<noteq> [] \<Longrightarrow> schedule nx chunks ! 0 = max nx (fst (chunks ! 0))"
  by (cases chunks) auto

lemma schedule_step:
  "Suc i < length chunks \<Longrightarrow>
     schedule nx chunks ! Suc i
       = max (schedule nx chunks ! i + chunk_duration (snd (chunks ! i)))
             (fst (chunks ! Suc i))"
proof (induction nx chunks arbitrary: i rule: schedule.induct)
  case (1 nx)
  then show ?case by simp
next
  case (2 nx t b chunks)
  show ?case
  proof (cases i)
    case 0
    with "2.prems" obtain t' b' rest where "chunks = (t', b') # rest"
      by (cases chunks) auto
    with 0 show ?thesis by simp
  next
    case (Suc k)
    with "2.prems" have "Suc k < length chunks" by simp
    from "2.IH" [OF this] Suc show ?thesis by simp
  qed
qed

lemma schedule_end_last:
  "chunks \<noteq> [] \<Longrightarrow>
     schedule_end nx chunks
       = last (schedule nx chunks) + chunk_duration (snd (last chunks))"
proof (induction nx chunks rule: schedule.induct)
  case (1 nx)
  then show ?case by simp
next
  case (2 nx t b chunks)
  show ?case
  proof (cases "chunks = []")
    case True
    then show ?thesis by simp
  next
    case False
    then have "schedule (max nx t + chunk_duration b) chunks \<noteq> []"
      by (cases chunks) auto
    with False "2.IH" show ?thesis by simp
  qed
qed

lemma schedule_gapless:
  assumes "\<forall>i. Suc i < length chunks \<longrightarrow>
             fst (chunks ! Suc i)
               \<le> schedule nx chunks ! 0 + (\<Sum>j\<le>i. chunk_duration (snd (chunks ! j)))"
  shows "i < length chunks \<Longrightarrow>
     schedule nx chunks ! i
       = schedule nx chunks ! 0 + (\<Sum>j<i. chunk_duration (snd (chunks ! j)))"
proof (induction i)
  case 0
  show ?case by simp
next
  case (Suc i)
  then have i: "i < length chunks" by simp
  have "schedule nx chunks ! Suc i
          = max (schedule nx chunks ! i + chunk_duration (snd (chunks ! i)))
                (fst (chunks ! Suc i))"
    using Suc.prems by (rule schedule_step)
  also have "schedule nx chunks ! i + chunk_duration (snd (chunks ! i))
          = schedule nx chunks ! 0 + (\<Sum>j\<le>i. chunk_duration (snd (chunks ! j)))"
    using Suc.IH [OF i] by (simp add: lessThan_Suc_atMost [symmetric])
  also have "max (schedule nx chunks ! 0 + (\<Sum>j\<le>i. chunk_duration (snd (chunks ! j))))
                 (fst (chunks ! Suc i))
          = schedule nx chunks ! 0 + (\<Sum>j\<le>i. chunk_duration (snd (chunks ! j)))"
  proof -
    from assms Suc.prems
    have "fst (chunks ! Suc i)
            \<le> schedule nx chunks ! 0 + (\<Sum>j\<le>i. chunk_duration (snd (chunks ! j)))"
      by blast
    then show ?thesis by (rule max_absorb1)
  qed
  finally show ?case by (simp add: lessThan_Suc_atMost)
qed

text \<open>
  C3, as the code has it. Take chunks that decode (an even, positive number of bytes)
  arriving in order, with the clock's time at each arrival, and no interruption. No
  message fails, and one source is scheduled for each chunk. The first starts at the later
  of the next start time and the clock; each later one starts at the later of the end of
  the chunk before it (its start plus its duration) and the clock at its own arrival, so
  it never starts before the chunk before it has ended: the chunks do not overlap. If
  every chunk arrives no later than the end of the chunk before it, each chunk starts at
  the first chunk's start plus the durations of the chunks before it: there is no gap.
  After the last chunk the next start time is its end.
\<close>

theorem playback_schedule:
  assumes "outputAudioCtxRef a"
    and "\<forall>(t, b)\<in>set chunks. even (length b) \<and> b \<noteq> []"
  shows "\<exists>a' starts.
           onmessages (map (\<lambda>(t, b). (t, audio_message b)) chunks) a = (None, a')
         \<and> starts = map start_time (drop (length (sourcesRef a)) (sourcesRef a'))
         \<and> length starts = length chunks
         \<and> (chunks \<noteq> [] \<longrightarrow> starts ! 0 = max (nextStartTimeRef a) (fst (chunks ! 0)))
         \<and> (\<forall>i. Suc i < length chunks \<longrightarrow>
               starts ! Suc i
                 = max (starts ! i + chunk_duration (snd (chunks ! i))) (fst (chunks ! Suc i)))
         \<and> (\<forall>i. Suc i < length chunks \<longrightarrow>
               starts ! i + chunk_duration (snd (chunks ! i)) \<le> starts ! Suc i)
         \<and> ((\<forall>i. Suc i < length chunks \<longrightarrow>
                 fst (chunks ! Suc i)
                   \<le> starts ! 0 + (\<Sum>j\<le>i. chunk_duration (snd (chunks ! j)))) \<longrightarrow>
              (\<forall>i<length chunks.
                 starts ! i = starts ! 0 + (\<Sum>j<i. chunk_duration (snd (chunks ! j)))))
         \<and> (chunks \<noteq> [] \<longrightarrow>
               nextStartTimeRef a' = last starts + chunk_duration (snd (last chunks)))"
proof -
  from audio_messages_run [OF assms] obtain a' where
    r: "onmessages (map (\<lambda>(t, b). (t, audio_message b)) chunks) a = (None, a')"
    and n: "nextStartTimeRef a' = schedule_end (nextStartTimeRef a) chunks"
    and m: "map start_time (sourcesRef a')
              = map start_time (sourcesRef a) @ schedule (nextStartTimeRef a) chunks"
    by (elim exE conjE)
  let ?starts = "schedule (nextStartTimeRef a) chunks"
  have "map start_time (drop (length (sourcesRef a)) (sourcesRef a'))
          = drop (length (map start_time (sourcesRef a))) (map start_time (sourcesRef a'))"
    by (simp add: drop_map)
  also have "\<dots> = ?starts"
    unfolding m by (rule append_eq_conv_conj [THEN iffD1, THEN conjunct2, symmetric]) simp
  finally have s: "?starts = map start_time (drop (length (sourcesRef a)) (sourcesRef a'))"
    by simp
  have step: "\<forall>i. Suc i < length chunks \<longrightarrow>
               ?starts ! Suc i
                 = max (?starts ! i + chunk_duration (snd (chunks ! i))) (fst (chunks ! Suc i))"
    by (simp add: schedule_step)
  have apart: "\<forall>i. Suc i < length chunks \<longrightarrow>
               ?starts ! i + chunk_duration (snd (chunks ! i)) \<le> ?starts ! Suc i"
    by (simp add: schedule_step)
  have gapless: "(\<forall>i. Suc i < length chunks \<longrightarrow>
                 fst (chunks ! Suc i)
                   \<le> ?starts ! 0 + (\<Sum>j\<le>i. chunk_duration (snd (chunks ! j)))) \<longrightarrow>
              (\<forall>i<length chunks.
                 ?starts ! i = ?starts ! 0 + (\<Sum>j<i. chunk_duration (snd (chunks ! j))))"
    using schedule_gapless by blast
  have first: "chunks \<noteq> [] \<longrightarrow> ?starts ! 0 = max (nextStartTimeRef a) (fst (chunks ! 0))"
    by (simp add: schedule_first)
  have final: "chunks \<noteq> [] \<longrightarrow>
               nextStartTimeRef a' = last ?starts + chunk_duration (snd (last chunks))"
    by (simp add: n schedule_end_last)
  show ?thesis
    by (intro exI [of _ a'] exI [of _ ?starts] conjI)
      (rule r, rule s, rule length_schedule, rule first, rule step, rule apart, rule gapless,
       rule final)
qed

theorem playback_schedule_witness:
  "\<exists>a' starts.
      onmessages [(0, audio_message [0, 0, 0, 0]), (0.00001, audio_message [0, 0])] opened_session
        = (None, a')
    \<and> starts = map start_time (sourcesRef a')
    \<and> length starts = 2
    \<and> starts ! 0 = 0
    \<and> starts ! 1 = 1 / 12000
    \<and> nextStartTimeRef a' = 1 / 8000"
proof -
  let ?chunks = "[(0, [0, 0, 0, 0]), (0.00001, [0, 0])] :: (real \<times> 8 word list) list"
  have h1: "outputAudioCtxRef opened_session"
    by (simp add: opened_session_def)
  have h2: "\<forall>(t, b)\<in>set ?chunks. even (length b) \<and> b \<noteq> []"
    by simp
  from playback_schedule [OF h1 h2] obtain a' starts where
    r: "onmessages (map (\<lambda>(t, b). (t, audio_message b)) ?chunks) opened_session = (None, a')"
    and s: "starts = map start_time (drop (length (sourcesRef opened_session)) (sourcesRef a'))"
    and l: "length starts = length ?chunks"
    and f: "?chunks \<noteq> [] \<longrightarrow> starts ! 0 = max (nextStartTimeRef opened_session) (fst (?chunks ! 0))"
    and g: "(\<forall>i. Suc i < length ?chunks \<longrightarrow>
                 fst (?chunks ! Suc i)
                   \<le> starts ! 0 + (\<Sum>j\<le>i. chunk_duration (snd (?chunks ! j)))) \<longrightarrow>
              (\<forall>i<length ?chunks.
                 starts ! i = starts ! 0 + (\<Sum>j<i. chunk_duration (snd (?chunks ! j))))"
    and e: "?chunks \<noteq> [] \<longrightarrow>
               nextStartTimeRef a' = last starts + chunk_duration (snd (last ?chunks))"
    by (elim exE conjE)
  have r': "onmessages [(0, audio_message [0, 0, 0, 0]), (0.00001, audio_message [0, 0])]
              opened_session = (None, a')"
    using r by simp
  have s': "starts = map start_time (sourcesRef a')"
    using s by (simp add: opened_session_def)
  have l': "length starts = 2" using l by simp
  have f': "starts ! 0 = 0" using f by (simp add: opened_session_def)
  have ontime: "\<forall>i. Suc i < length ?chunks \<longrightarrow>
                 fst (?chunks ! Suc i)
                   \<le> starts ! 0 + (\<Sum>j\<le>i. chunk_duration (snd (?chunks ! j)))"
    by (simp add: f' chunk_duration_def)
  from g [THEN mp, OF ontime, rule_format, of 1]
  have g': "starts ! 1 = 1 / 12000"
    by (simp add: f' chunk_duration_def)
  have "last starts = starts ! 1"
    using l' by (cases starts rule: rev_cases) (auto simp: nth_append)
  then have e': "nextStartTimeRef a' = 1 / 8000"
    using e g' by (simp add: chunk_duration_def)
  show ?thesis
    by (intro exI [of _ a'] exI [of _ starts] conjI) (rule r', rule s', rule l', rule f', rule g', rule e')
qed

text \<open>
  The start of a chunk is not always the sum of the durations before it: a second chunk
  that arrives at the clock time 10, when the first (one frame, played from 0) has long
  ended, starts at 10.
\<close>

theorem late_chunk_starts_late_counterexample:
  "map start_time (sourcesRef (snd (onmessages
       [(0, audio_message [0, 0]), (10, audio_message [0, 0])] opened_session))) = [0, 10]
   \<and> chunk_duration [0, 0] = 1 / 24000
   \<and> (10 :: real) \<noteq> 0 + 1 / 24000"
  by (simp add: onmessage_def audio_message_def opened_session_def play_audio_def
      decodeAudioData_def buffer_duration_def buffer_length_def chunk_duration_def Let_def)

subsection \<open>C5: an interruption\<close>




text \<open>
  Outside the statement: the handler plays the audio of a message before it looks at the
  mark, so a chunk that cannot be decoded ends the handler with the error, and the
  sources and the next start time stay as they were.
\<close>

lemma bad_chunk_skips_interrupt:
  "onmessage 7 \<lparr>inlineData = Some [0], interrupted = True\<rparr>
       (opened_session\<lparr>nextStartTimeRef := 12, sourcesRef := [src]\<rparr>)
     = (Some RangeError, opened_session\<lparr>nextStartTimeRef := 12, sourcesRef := [src]\<rparr>)"
  by (simp add: onmessage_def play_audio_def decodeAudioData_def opened_session_def Let_def)

section \<open>Properties of the parser\<close>

subsection \<open>C1: the commands of a chunk\<close>








text \<open>
  The payload of a marker ends at the first \<open>}]\<close> behind its opening brace, wherever
  that stands: a payload that holds \<open>}]\<close> itself is cut there.
\<close>

lemma marker_ends_at_first_close:
  "board_markers ''[BOARD:{\"action\":\"write\",\"text\":\"a}]b\"}]''
     = [''{\"action\":\"write\",\"text\":\"a}'']"
proof -
  have "board_exec ''[BOARD:{\"action\":\"write\",\"text\":\"a}]b\"}]''
          = Some (''{\"action\":\"write\",\"text\":\"a}'', ''b\"}]'')"
    by (simp add: is_line_terminator_def)
  moreover have "board_exec ''b\"}]'' = None" by simp
  ultimately show ?thesis
    by (simp add: board_markers.simps [of "''[BOARD:{\"action\":\"write\",\"text\":\"a}]b\"}]''"]
        board_markers.simps [of "''b\"}]''"])
qed




end
